theory Spec2Isabelle
  imports Main "HOL-Library.AList"
begin

section \<open>Python values used by the pipeline\<close>

text \<open>
  A Python \<open>str\<close> is a \<open>string\<close>; a character stands for the Unicode code point of
  the same number, so the model covers the strings over U+0000..U+00FF. Python integers are
  unbounded (\<open>int\<close>, or \<open>nat\<close> where the code only produces non-negative values).
  Every exception the code can raise is a value of \<open>error\<close>.
\<close>

datatype error =
    ValueError | KeyError | TypeError | AttributeError | OverflowError
  | WrongType | ConstraintError | ConversionError | IOError

definition isdecimal_char :: "char \<Rightarrow> bool" where
  "isdecimal_char c = (48 \<le> (of_char c :: nat) \<and> (of_char c :: nat) \<le> 57)"

text \<open>
  \<open>str.isdigit\<close> accepts the decimal digits and, besides them, the characters whose
  Unicode property is Numeric\_Type=Digit: below U+0100 these are the superscripts
  U+00B2, U+00B3 and U+00B9.
\<close>

definition isdigit_char :: "char \<Rightarrow> bool" where
  "isdigit_char c =
     (isdecimal_char c \<or> (of_char c :: nat) = 178 \<or> (of_char c :: nat) = 179
        \<or> (of_char c :: nat) = 185)"

definition str_isdigit :: "string \<Rightarrow> bool" where
  "str_isdigit s = (s \<noteq> [] \<and> list_all isdigit_char s)"

text \<open>
  The characters \<open>int()\<close> skips before and after the literal: U+0009 to U+000D, the
  space, and the two spaces above U+007F, U+0085 and U+00A0. The separators U+001C to
  U+001F, which \<open>str.isspace\<close> accepts, are not among them.
\<close>

definition int_space_char :: "char \<Rightarrow> bool" where
  "int_space_char c =
     ((9 \<le> (of_char c :: nat) \<and> (of_char c :: nat) \<le> 13)
      \<or> (of_char c :: nat) = 32
      \<or> (of_char c :: nat) = 133 \<or> (of_char c :: nat) = 160)"

definition digit_val :: "char \<Rightarrow> nat" where
  "digit_val c = (of_char c :: nat) - 48"

definition digit_char :: "nat \<Rightarrow> char" where
  "digit_char d = char_of (48 + d)"

text \<open>
  The digits of an \<open>int()\<close> literal after the first one: decimal digits, with single
  underscores allowed between two digits.
\<close>

fun int_body :: "nat \<Rightarrow> string \<Rightarrow> nat option" where
  "int_body acc [] = Some acc"
| "int_body acc (c # cs) =
     (if isdecimal_char c then int_body (acc * 10 + digit_val c) cs
      else if c = CHR ''_'' then
        (case cs of
           [] \<Rightarrow> None
         | d # ds \<Rightarrow> if isdecimal_char d then int_body (acc * 10 + digit_val d) ds else None)
      else None)"

definition int_digits :: "string \<Rightarrow> nat option" where
  "int_digits s =
     (case s of
        [] \<Rightarrow> None
      | c # cs \<Rightarrow> if isdecimal_char c then int_body (digit_val c) cs else None)"

definition int_strip :: "string \<Rightarrow> string" where
  "int_strip s = rev (dropWhile int_space_char (rev (dropWhile int_space_char s)))"

text \<open>\<open>int(s)\<close> for a string \<open>s\<close>, base 10: surrounding whitespace, an optional sign,
  then the digits. Anything else raises \<open>ValueError\<close>. The interpreter's limit on the
  number of digits of a literal (4300 unless configured) is left out.\<close>

definition py_int :: "string \<Rightarrow> error + int" where
  "py_int s =
     (case int_strip s of
        [] \<Rightarrow> Inl ValueError
      | c # cs \<Rightarrow>
          if c = CHR ''-'' then
            (case int_digits cs of None \<Rightarrow> Inl ValueError | Some n \<Rightarrow> Inr (- int n))
          else if c = CHR ''+'' then
            (case int_digits cs of None \<Rightarrow> Inl ValueError | Some n \<Rightarrow> Inr (int n))
          else
            (case int_digits (c # cs) of None \<Rightarrow> Inl ValueError | Some n \<Rightarrow> Inr (int n)))"

text \<open>\<open>str(n)\<close> for a non-negative integer.\<close>

fun py_str :: "nat \<Rightarrow> string" where
  "py_str n = (if n < 10 then [digit_char n] else py_str (n div 10) @ [digit_char (n mod 10)])"

declare py_str.simps [simp del]

text \<open>
  The objects \<open>json.loads\<close> builds. A float is kept as a sign-free mantissa and
  exponent or one of the special values; the code only ever tests it for truth.
\<close>

datatype pyfloat = Finite int int | NegZero | PosInf | NegInf | NaN

datatype json =
    JNull | JBool bool | JInt int | JFloat pyfloat | JStr string
  | JArr "json list" | JObj "(string \<times> json) list"

text \<open>Python's truth value of such an object (\<open>if x:\<close>).\<close>

fun truthy :: "json \<Rightarrow> bool" where
  "truthy JNull = False"
| "truthy (JBool b) = b"
| "truthy (JInt n) = (n \<noteq> 0)"
| "truthy (JFloat f) = (case f of Finite m e \<Rightarrow> m \<noteq> 0 | NegZero \<Rightarrow> False | _ \<Rightarrow> True)"
| "truthy (JStr s) = (s \<noteq> [])"
| "truthy (JArr xs) = (xs \<noteq> [])"
| "truthy (JObj kvs) = (kvs \<noteq> [])"

text \<open>
  \<open>s.replace(old, new)\<close>: every non-overlapping occurrence of \<open>old\<close>, from the left.
\<close>

function str_replace :: "string \<Rightarrow> string \<Rightarrow> string \<Rightarrow> string" where
  "str_replace s old new =
     (if old = [] then new @ concat (map (\<lambda>c. c # new) s)
      else if s = [] then []
      else if take (length old) s = old then new @ str_replace (drop (length old) s) old new
      else hd s # str_replace (tl s) old new)"
  by pat_completeness auto
termination
  by (relation "measure (\<lambda>(s, old, new). length s)") (auto simp: Suc_le_eq)

declare str_replace.simps [simp del]

section \<open>The ephemeral store\<close>

text \<open>
  Redis holds typed values under string keys. A command applied to a key of another type
  fails (\<open>WRONGTYPE\<close>), which redis-py raises as an exception. A missing key reads as
  the empty value of the command's type.
\<close>

datatype rval = RStr string | RList "string list" | RHash "(string \<times> string) list"

type_synonym redis = "(string \<times> rval) list"

definition redis_get :: "redis \<Rightarrow> string \<Rightarrow> error + string option" where
  "redis_get r k =
     (case map_of r k of
        None \<Rightarrow> Inr None
      | Some (RStr s) \<Rightarrow> Inr (Some s)
      | Some _ \<Rightarrow> Inl WrongType)"

definition redis_set :: "redis \<Rightarrow> string \<Rightarrow> string \<Rightarrow> redis" where
  "redis_set r k v = AList.update k (RStr v) r"

definition redis_llen :: "redis \<Rightarrow> string \<Rightarrow> error + nat" where
  "redis_llen r k =
     (case map_of r k of
        None \<Rightarrow> Inr 0
      | Some (RList xs) \<Rightarrow> Inr (length xs)
      | Some _ \<Rightarrow> Inl WrongType)"

text \<open>
  The index arithmetic shared by LRANGE and LTRIM: negative indices count from the end of
  the list, both ends are inclusive, and a range that falls outside the list is cut to it.
\<close>

definition list_slice :: "string list \<Rightarrow> int \<Rightarrow> int \<Rightarrow> string list" where
  "list_slice xs start stop =
     (let llen = int (length xs);
          s1 = (if start < 0 then llen + start else start);
          e1 = (if stop < 0 then llen + stop else stop);
          s2 = (if s1 < 0 then 0 else s1)
      in if s2 > e1 \<or> s2 \<ge> llen then []
         else let e2 = (if e1 \<ge> llen then llen - 1 else e1)
              in take (nat (e2 - s2 + 1)) (drop (nat s2) xs))"

definition redis_lrange :: "redis \<Rightarrow> string \<Rightarrow> int \<Rightarrow> int \<Rightarrow> error + string list" where
  "redis_lrange r k start stop =
     (case map_of r k of
        None \<Rightarrow> Inr []
      | Some (RList xs) \<Rightarrow> Inr (list_slice xs start stop)
      | Some _ \<Rightarrow> Inl WrongType)"



definition redis_hgetall :: "redis \<Rightarrow> string \<Rightarrow> error + (string \<times> string) list" where
  "redis_hgetall r k =
     (case map_of r k of
        None \<Rightarrow> Inr []
      | Some (RHash h) \<Rightarrow> Inr h
      | Some _ \<Rightarrow> Inl WrongType)"

definition JOB_HASH_PREFIX :: string where "JOB_HASH_PREFIX = ''bench_job:''"
definition JOB_LOG_PREFIX :: string where "JOB_LOG_PREFIX = ''bench_job_log:''"
definition JOB_LOG_SYNC_PREFIX :: string where "JOB_LOG_SYNC_PREFIX = ''bench_job_log_sync:''"

section \<open>The durable store: the job\_logs table\<close>

text \<open>
  A table is the list of its rows. The schema of \<open>_ensure_schema\<close> gives
  \<open>job_logs\<close> the primary key \<open>(job_id, seq)\<close> and the column type BIGINT to
  \<open>seq\<close> and \<open>ts\<close>: an INSERT of a key that is present, or of a value outside the
  64-bit range, raises and inserts nothing.
\<close>

type_synonym log_row = "string \<times> int \<times> int \<times> string"

definition fits_bigint :: "int \<Rightarrow> bool" where
  "fits_bigint x = (- (2 ^ 63) \<le> x \<and> x < 2 ^ 63)"

definition log_pk :: "log_row \<Rightarrow> string \<times> int" where
  "log_pk r = (fst r, fst (snd r))"

definition insert_log_row :: "log_row list \<Rightarrow> log_row \<Rightarrow> error + log_row list" where
  "insert_log_row tbl r =
     (if \<not> fits_bigint (fst (snd r)) \<or> \<not> fits_bigint (fst (snd (snd r))) then Inl ConversionError
      else if log_pk r \<in> set (map log_pk tbl) then Inl ConstraintError
      else Inr (tbl @ [r]))"

text \<open>\<open>executemany\<close>: one INSERT per parameter tuple, stopping at the first that raises.\<close>

fun executemany_logs :: "log_row list \<Rightarrow> log_row list \<Rightarrow> error + log_row list" where
  "executemany_logs tbl [] = Inr tbl"
| "executemany_logs tbl (r # rs) =
     (case insert_log_row tbl r of
        Inl e \<Rightarrow> Inl e
      | Inr tbl' \<Rightarrow> executemany_logs tbl' rs)"

text \<open>
  \<open>insert_job_logs(job_id, rows)\<close> returns the number of rows inserted, or raises after
  ROLLBACK has restored the table. The result pairs the outcome with the table afterwards.
\<close>

definition insert_job_logs ::
  "string \<Rightarrow> (int \<times> int \<times> string) list \<Rightarrow> log_row list \<Rightarrow> (error + nat) \<times> log_row list" where
  "insert_job_logs job_id rows tbl =
     (if rows = [] then (Inr 0, tbl)
      else
        let seqs = map fst rows;
            min_seq = Min (set seqs);
            max_seq = Max (set seqs);
            existing = map (\<lambda>r. fst (snd r))
                         (filter (\<lambda>r. fst r = job_id \<and> min_seq \<le> fst (snd r) \<and> fst (snd r) \<le> max_seq) tbl);
            existing_seqs = set existing;
            to_insert = filter (\<lambda>r. fst r \<notin> existing_seqs) rows
        in if to_insert = [] then (Inr 0, tbl)
           else
             (let params = map (\<lambda>(seq, ts, line). (job_id, seq, ts, line)) to_insert
              in case executemany_logs tbl params of
                   Inr tbl' \<Rightarrow> (Inr (length to_insert), tbl')
                 | Inl e \<Rightarrow> (Inl e, tbl)))"

section \<open>The durable store: the jobs table\<close>

text \<open>
  The dictionary the reconciler builds at lines 51 to 61 of \<open>db_sync.py\<close>. A field
  that is \<open>None\<close> is \<open>None\<close> here; \<open>params\<close> is \<open>None\<close> (\<open>JNull\<close>), a string
  or another parsed object.
\<close>

record job =
  jid :: string
  status :: "string option"
  created_at :: "int option"
  started_at :: "int option"
  finished_at :: "int option"
  exit_code :: "int option"
  result_path :: "string option"
  err :: "string option"
  params :: json

text \<open>A row of \<open>jobs\<close>: \<open>id\<close> is the primary key, the other columns are nullable.\<close>

record job_row =
  r_id :: string
  r_status :: "string option"
  r_created_at :: "int option"
  r_started_at :: "int option"
  r_finished_at :: "int option"
  r_exit_code :: "int option"
  r_result_path :: "string option"
  r_error :: "string option"
  r_params :: "string option"
  r_last_updated :: "int option"

definition fits_integer :: "int \<Rightarrow> bool" where
  "fits_integer x = (- (2 ^ 31) \<le> x \<and> x < 2 ^ 31)"

definition fits_opt :: "(int \<Rightarrow> bool) \<Rightarrow> int option \<Rightarrow> bool" where
  "fits_opt f v = (case v of None \<Rightarrow> True | Some x \<Rightarrow> f x)"

text \<open>
  INSERT INTO jobs: a value outside its column's range (BIGINT, and INTEGER for
  \<open>exit_code\<close>) or an \<open>id\<close> that is present raises.
\<close>

definition insert_job_row :: "job_row list \<Rightarrow> job_row \<Rightarrow> error + job_row list" where
  "insert_job_row tbl r =
     (if \<not> (fits_opt fits_bigint (r_created_at r) \<and> fits_opt fits_bigint (r_started_at r)
             \<and> fits_opt fits_bigint (r_finished_at r) \<and> fits_opt fits_integer (r_exit_code r)
             \<and> fits_opt fits_bigint (r_last_updated r))
      then Inl ConversionError
      else if r_id r \<in> set (map r_id tbl) then Inl ConstraintError
      else Inr (tbl @ [r]))"

text \<open>\<open>int(x or 0)\<close> for a field that is an integer or \<open>None\<close>.\<close>

definition int_or_zero :: "int option \<Rightarrow> int" where
  "int_or_zero x = (case x of None \<Rightarrow> 0 | Some n \<Rightarrow> if n = 0 then 0 else n)"

text \<open>
  Lines 55 to 60 of \<open>duckdb_client.py\<close>: \<open>params\<close> is stored as it is when it is
  \<open>None\<close> or a string, as \<open>json.dumps(params)\<close> otherwise, and as \<open>str(params)\<close>
  when that raises. \<open>json.dumps\<close> and \<open>str\<close> are parameters.
\<close>

definition params_column :: "(json \<Rightarrow> error + string) \<Rightarrow> (json \<Rightarrow> string) \<Rightarrow> json \<Rightarrow> string option" where
  "params_column dumps str_of p =
     (case p of
        JNull \<Rightarrow> None
      | JStr s \<Rightarrow> Some s
      | _ \<Rightarrow> (case dumps p of Inr s \<Rightarrow> Some s | Inl e \<Rightarrow> Some (str_of p)))"

definition row_of_job ::
  "(json \<Rightarrow> error + string) \<Rightarrow> (json \<Rightarrow> string) \<Rightarrow> int \<Rightarrow> job \<Rightarrow> job_row" where
  "row_of_job dumps str_of now j =
     \<lparr> r_id = jid j,
       r_status = status j,
       r_created_at = Some (int_or_zero (created_at j)),
       r_started_at = Some (int_or_zero (started_at j)),
       r_finished_at = Some (int_or_zero (finished_at j)),
       r_exit_code = (case exit_code j of None \<Rightarrow> None | Some n \<Rightarrow> Some n),
       r_result_path = result_path j,
       r_error = err j,
       r_params = params_column dumps str_of (params j),
       r_last_updated = Some now \<rparr>"

text \<open>
  \<open>upsert_job(job)\<close>: DELETE and INSERT between BEGIN TRANSACTION and COMMIT. When the
  INSERT raises, ROLLBACK restores the table as it was before the DELETE and the exception
  is raised again. The result is the exception, if any, and the table afterwards.
\<close>

definition upsert_job ::
  "(json \<Rightarrow> error + string) \<Rightarrow> (json \<Rightarrow> string) \<Rightarrow> int \<Rightarrow> job \<Rightarrow> job_row list
     \<Rightarrow> error option \<times> job_row list" where
  "upsert_job dumps str_of now j tbl =
     (let deleted = filter (\<lambda>r. r_id r \<noteq> jid j) tbl
      in case insert_job_row deleted (row_of_job dumps str_of now j) of
           Inr tbl' \<Rightarrow> (None, tbl')
         | Inl e \<Rightarrow> (Some e, tbl))"

section \<open>The log sync\<close>

record world =
  redis :: redis
  jobs :: "job_row list"
  job_logs :: "log_row list"

text \<open>Line 78: the stored index is used only if it is non-empty and \<open>isdigit()\<close>.\<close>

definition read_last_idx :: "string option \<Rightarrow> error + int" where
  "read_last_idx last_idx_val =
     (case last_idx_val of
        None \<Rightarrow> Inr 0
      | Some s \<Rightarrow> if s \<noteq> [] \<and> str_isdigit s then py_int s else Inr 0)"

text \<open>Lines 94 to 99: the rows handed to the insert, numbered from \<open>last_idx\<close>.\<close>

definition make_rows :: "int \<Rightarrow> int \<Rightarrow> string list \<Rightarrow> (int \<times> int \<times> string) list" where
  "make_rows last_idx ts new_entries =
     map (\<lambda>(i, line). (last_idx + int i, ts, line)) (enumerate 0 new_entries)"

text \<open>
  \<open>_sync_logs_for_job\<close>, with the batch limit and the clock reading as parameters.
  Only the read of the sync key and the conversion of its value are outside a
  \<open>try\<close>, so an exception leaves the function before anything is written.
\<close>

definition sync_logs_for_job :: "int \<Rightarrow> int \<Rightarrow> string \<Rightarrow> world \<Rightarrow> error + world" where
  "sync_logs_for_job LOG_BATCH_LIMIT now job_id w =
     (let log_key = JOB_LOG_PREFIX @ job_id;
          sync_key = JOB_LOG_SYNC_PREFIX @ job_id
      in case redis_get (redis w) sync_key of
           Inl e \<Rightarrow> Inl e
         | Inr last_idx_val \<Rightarrow>
             (case read_last_idx last_idx_val of
                Inl e \<Rightarrow> Inl e
              | Inr last_idx \<Rightarrow>
                  (let llen = (case redis_llen (redis w) log_key of Inl e \<Rightarrow> 0 | Inr n \<Rightarrow> int n)
                   in if llen \<le> last_idx then Inr w
                      else
                        let end_idx = min (llen - 1) (last_idx + LOG_BATCH_LIMIT - 1);
                            new_entries =
                              (case redis_lrange (redis w) log_key last_idx end_idx of
                                 Inl e \<Rightarrow> []
                               | Inr xs \<Rightarrow> xs)
                        in if new_entries = [] then Inr w
                           else
                             let ts = now;
                                 rows = make_rows last_idx ts new_entries;
                                 (inserted, tbl) = insert_job_logs job_id rows (job_logs w);
                                 next_idx = last_idx + int (length new_entries)
                             in Inr (w\<lparr> job_logs := tbl,
                                       redis := redis_set (redis w) sync_key (py_str (nat next_idx)) \<rparr>))))"

section \<open>The reconciler\<close>

text \<open>\<open>int(meta.get(f)) if meta.get(f) else None\<close>: no guard around \<open>int\<close>.\<close>

definition opt_int_field :: "(string \<times> string) list \<Rightarrow> string \<Rightarrow> error + int option" where
  "opt_int_field meta f =
     (case map_of meta f of
        None \<Rightarrow> Inr None
      | Some s \<Rightarrow>
          if s = [] then Inr None
          else (case py_int s of Inl e \<Rightarrow> Inl e | Inr n \<Rightarrow> Inr (Some n)))"

text \<open>Lines 45 to 50: \<open>params\<close> is parsed when present, and kept as the raw string
  when \<open>json.loads\<close> raises. \<open>json.loads\<close> is a parameter.\<close>

definition read_params :: "(string \<Rightarrow> error + json) \<Rightarrow> (string \<times> string) list \<Rightarrow> json" where
  "read_params loads meta =
     (case map_of meta ''params'' of
        None \<Rightarrow> JNull
      | Some s \<Rightarrow>
          if s = [] then JNull
          else (case loads s of Inr v \<Rightarrow> v | Inl e \<Rightarrow> JStr s))"

text \<open>Lines 51 to 61: building the record raises when one of the four \<open>int\<close> calls does.\<close>

definition job_record ::
  "(string \<Rightarrow> error + json) \<Rightarrow> string \<Rightarrow> (string \<times> string) list \<Rightarrow> error + job" where
  "job_record loads job_id meta =
     (let p = read_params loads meta
      in case opt_int_field meta ''created_at'' of Inl e \<Rightarrow> Inl e | Inr c \<Rightarrow>
         (case opt_int_field meta ''started_at'' of Inl e \<Rightarrow> Inl e | Inr s \<Rightarrow>
         (case opt_int_field meta ''finished_at'' of Inl e \<Rightarrow> Inl e | Inr f \<Rightarrow>
         (case opt_int_field meta ''exit_code'' of Inl e \<Rightarrow> Inl e | Inr x \<Rightarrow>
            Inr \<lparr> jid = job_id, status = map_of meta ''status'', created_at = c,
                  started_at = s, finished_at = f, exit_code = x,
                  result_path = map_of meta ''result_path'', err = map_of meta ''error'',
                  params = p \<rparr>))))"

text \<open>What a reconciliation cycle takes from outside: \<open>json.loads\<close>, \<open>json.dumps\<close>,
  \<open>str\<close>, the configured \<open>LOG_BATCH_LIMIT\<close> and the reading of the clock.\<close>

record env =
  env_loads :: "string \<Rightarrow> error + json"
  env_dumps :: "json \<Rightarrow> error + string"
  env_str :: "json \<Rightarrow> string"
  env_limit :: int
  env_now :: int

text \<open>
  The body of the \<open>for k in keys\<close> loop, lines 41 to 65, for one key. It returns the
  exception that left the body, if any, and the world as the body left it.
\<close>

definition sync_one_job :: "env \<Rightarrow> string \<Rightarrow> world \<Rightarrow> error option \<times> world" where
  "sync_one_job E k w =
     (case redis_hgetall (redis w) k of
        Inl e \<Rightarrow> (Some e, w)
      | Inr meta \<Rightarrow>
          if meta = [] then (None, w)
          else
            let job_id = str_replace k JOB_HASH_PREFIX []
            in case job_record (env_loads E) job_id meta of
                 Inl e \<Rightarrow> (Some e, w)
               | Inr j \<Rightarrow>
                   (case upsert_job (env_dumps E) (env_str E) (env_now E) j (jobs w) of
                      (Some e, tbl) \<Rightarrow> (Some e, w\<lparr> jobs := tbl \<rparr>)
                    | (None, tbl) \<Rightarrow>
                        (case sync_logs_for_job (env_limit E) (env_now E) job_id (w\<lparr> jobs := tbl \<rparr>) of
                           Inl e \<Rightarrow> (Some e, w\<lparr> jobs := tbl \<rparr>)
                         | Inr w' \<Rightarrow> (None, w'))))"




section \<open>The worker's log path\<close>


section \<open>The batched writer\<close>

text \<open>
  \<open>duckdb_batch_writer.py\<close>. An event is a dictionary. What the module takes from
  outside is a parameter: \<open>float\<close>, \<open>json.dumps\<close> and the connection's \<open>executemany\<close>,
  which may raise after it has changed the database.
\<close>

type_synonym event = "(string \<times> json) list"

type_synonym event_row = "json \<times> pyfloat \<times> json \<times> string"

record 'db writer_env =
  w_float :: "json \<Rightarrow> error + pyfloat"
  w_dumps :: "json \<Rightarrow> error + string"
  w_executemany :: "event_row list \<Rightarrow> 'db \<Rightarrow> error option \<times> 'db"

definition BATCH_SIZE :: nat where "BATCH_SIZE = 500"

text \<open>\<open>FLUSH_INTERVAL\<close> is 2.0 seconds; times are counted in milliseconds.\<close>

definition FLUSH_INTERVAL :: nat where "FLUSH_INTERVAL = 2000"

text \<open>Line 39, the tuple built for one event: a missing key raises \<open>KeyError\<close>.\<close>

definition event_params :: "'db writer_env \<Rightarrow> event \<Rightarrow> error + event_row" where
  "event_params W r =
     (case map_of r ''session_id'' of
        None \<Rightarrow> Inl KeyError
      | Some sid \<Rightarrow>
          (case map_of r ''timestamp'' of
             None \<Rightarrow> Inl KeyError
           | Some ts \<Rightarrow>
               (case w_float W ts of
                  Inl e \<Rightarrow> Inl e
                | Inr f \<Rightarrow>
                    (case map_of r ''type'' of
                       None \<Rightarrow> Inl KeyError
                     | Some ty \<Rightarrow>
                         (case w_dumps W (case map_of r ''payload'' of None \<Rightarrow> JObj [] | Some p \<Rightarrow> p) of
                            Inl e \<Rightarrow> Inl e
                          | Inr s \<Rightarrow> Inr (sid, f, ty, s))))))"

fun all_params :: "'db writer_env \<Rightarrow> event list \<Rightarrow> error + event_row list" where
  "all_params W [] = Inr []"
| "all_params W (r # rs) =
     (case event_params W r of
        Inl e \<Rightarrow> Inl e
      | Inr p \<Rightarrow> (case all_params W rs of Inl e \<Rightarrow> Inl e | Inr ps \<Rightarrow> Inr (p # ps)))"

text \<open>
  \<open>DuckDBWriter.insert_batch\<close>: nothing for an empty list, otherwise one \<open>executemany\<close>
  with the tuples of all rows. The result is the exception, if any, and the database.
\<close>

definition insert_batch :: "'db writer_env \<Rightarrow> event list \<Rightarrow> 'db \<Rightarrow> error option \<times> 'db" where
  "insert_batch W rows db =
     (if rows = [] then (None, db)
      else case all_params W rows of
             Inl e \<Rightarrow> (Some e, db)
           | Inr ps \<Rightarrow> w_executemany W ps db)"

text \<open>
  The state of \<open>batched_writer_task\<close> between two iterations of its loop. \<open>batches\<close> records
  the argument of every \<open>writer.insert_batch\<close> call made so far.
\<close>

record 'db writer_state =
  buffer :: "event list"
  last_flush :: nat
  conn :: 'db
  batches :: "event list list"

text \<open>How \<open>await asyncio.wait_for(queue.get(), timeout=FLUSH_INTERVAL)\<close> ends.\<close>

datatype wake = Got event | TimedOut

text \<open>
  One iteration, ending at time \<open>t\<close>. An exception of \<open>insert_batch\<close> in the \<open>try\<close> body is
  caught by \<open>except Exception\<close> (the \<open>clear\<close> after it is skipped). An exception of
  \<open>insert_batch\<close> inside the \<open>except asyncio.TimeoutError\<close> handler is not covered by the
  other \<open>except\<close> clause of the same \<open>try\<close>: it leaves the loop and ends the task, which the
  first component of the result reports.
\<close>

definition writer_step ::
  "'db writer_env \<Rightarrow> nat \<Rightarrow> nat \<Rightarrow> wake \<Rightarrow> 'db writer_state \<Rightarrow> error option \<times> 'db writer_state" where
  "writer_step W B t wk s =
     (case wk of
        Got evt \<Rightarrow>
          (let buf = buffer s @ [evt]
           in if length buf \<ge> B then
                (case insert_batch W buf (conn s) of
                   (None, db) \<Rightarrow>
                     (None, s\<lparr> buffer := [], last_flush := t, conn := db, batches := batches s @ [buf] \<rparr>)
                 | (Some e, db) \<Rightarrow>
                     (None, s\<lparr> buffer := buf, conn := db, batches := batches s @ [buf] \<rparr>))
              else (None, s\<lparr> buffer := buf \<rparr>))
      | TimedOut \<Rightarrow>
          if buffer s \<noteq> [] then
            (case insert_batch W (buffer s) (conn s) of
               (None, db) \<Rightarrow>
                 (None, s\<lparr> buffer := [], last_flush := t, conn := db, batches := batches s @ [buffer s] \<rparr>)
             | (Some e, db) \<Rightarrow>
                 (Some e, s\<lparr> conn := db, batches := batches s @ [buffer s] \<rparr>))
          else (None, s))"

text \<open>The \<open>while True\<close> loop over the wake-ups of a run, each with its time, until the
  task ends.\<close>

fun run_writer ::
  "'db writer_env \<Rightarrow> nat \<Rightarrow> (nat \<times> wake) list \<Rightarrow> 'db writer_state \<Rightarrow> error option \<times> 'db writer_state" where
  "run_writer W B [] s = (None, s)"
| "run_writer W B ((t, wk) # rest) s =
     (case writer_step W B t wk s of
        (Some e, s') \<Rightarrow> (Some e, s')
      | (None, s') \<Rightarrow> run_writer W B rest s')"

text \<open>
  The wake-ups that arrivals produce. Each event arrives \<open>gap\<close> after the loop started to
  wait for it; a wait that has lasted \<open>T\<close> times out and the loop waits again, so an arrival
  is preceded by \<open>gap div T\<close> timeouts. After the last arrival the queue stays empty for
  \<open>idle\<close>. An iteration takes no time.
\<close>

fun schedule :: "nat \<Rightarrow> nat \<Rightarrow> (nat \<times> event) list \<Rightarrow> nat \<Rightarrow> (nat \<times> wake) list" where
  "schedule T now [] idle = map (\<lambda>k. (now + k * T, TimedOut)) [1..<Suc (idle div T)]"
| "schedule T now ((gap, evt) # rest) idle =
     map (\<lambda>k. (now + k * T, TimedOut)) [1..<Suc (gap div T)]
       @ (now + gap, Got evt) # schedule T (now + gap) rest idle"

section \<open>The realtime fan-out\<close>

text \<open>
  \<open>log_listener.py\<close>. A message of the subscription is a dictionary of which the loop
  reads \<open>type\<close> and \<open>data\<close>; \<open>data\<close> is \<open>None\<close>, a number (subscription replies) or a
  string. The registered callback is known by what a call of it raises.
\<close>

datatype mdata = DNone | DInt int | DStr string

record message =
  mtype :: "string option"
  mdata :: mdata

type_synonym emit_cb = "json \<Rightarrow> json \<Rightarrow> error option"

text \<open>\<open>if not data\<close>.\<close>

definition data_truthy :: "mdata \<Rightarrow> bool" where
  "data_truthy d = (case d of DNone \<Rightarrow> False | DInt n \<Rightarrow> n \<noteq> 0 | DStr s \<Rightarrow> s \<noteq> [])"

text \<open>\<open>json.loads(data)\<close>: a number is not accepted.\<close>

definition loads_data :: "(string \<Rightarrow> error + json) \<Rightarrow> mdata \<Rightarrow> error + json" where
  "loads_data loads d = (case d of DStr s \<Rightarrow> loads s | _ \<Rightarrow> Inl TypeError)"

text \<open>\<open>payload.get(key)\<close>: only a dictionary has \<open>get\<close>.\<close>

definition payload_get :: "json \<Rightarrow> string \<Rightarrow> error + json" where
  "payload_get payload key =
     (case payload of
        JObj kvs \<Rightarrow> (case map_of kvs key of None \<Rightarrow> Inr JNull | Some v \<Rightarrow> Inr v)
      | _ \<Rightarrow> Inl AttributeError)"

text \<open>
  Lines 56 to 60. \<open>out\<close> is the list of the calls of the callback made so far; the inner
  \<open>try\<close> drops what the call raises.
\<close>

definition emit :: "emit_cb option \<Rightarrow> json \<Rightarrow> json \<Rightarrow> (json \<times> json) list \<Rightarrow> error option \<times> (json \<times> json) list" where
  "emit cb job_id line out =
     (case cb of
        None \<Rightarrow> (None, out)
      | Some f \<Rightarrow>
          if truthy job_id \<and> line \<noteq> JNull then
            (case f job_id line of
               None \<Rightarrow> (None, out @ [(job_id, line)])
             | Some e \<Rightarrow> (None, out @ [(job_id, line)]))
          else (None, out))"

text \<open>Lines 53 to 60, the body of the outer \<open>try\<close>: it raises what \<open>json.loads\<close> or
  \<open>payload.get\<close> raises.\<close>

definition handle_payload ::
  "(string \<Rightarrow> error + json) \<Rightarrow> emit_cb option \<Rightarrow> mdata \<Rightarrow> (json \<times> json) list
     \<Rightarrow> error option \<times> (json \<times> json) list" where
  "handle_payload loads cb d out =
     (case loads_data loads d of
        Inl e \<Rightarrow> (Some e, out)
      | Inr payload \<Rightarrow>
          (case payload_get payload ''job_id'' of
             Inl e \<Rightarrow> (Some e, out)
           | Inr job_id \<Rightarrow>
               (case payload_get payload ''line'' of
                  Inl e \<Rightarrow> (Some e, out)
                | Inr line \<Rightarrow> emit cb job_id line out)))"

text \<open>Lines 45 to 63, one message: the outer handler drops the exception of the body.\<close>

definition handle_message ::
  "(string \<Rightarrow> error + json) \<Rightarrow> emit_cb option \<Rightarrow> message option \<Rightarrow> (json \<times> json) list
     \<Rightarrow> error option \<times> (json \<times> json) list" where
  "handle_message loads cb m out =
     (case m of
        None \<Rightarrow> (None, out)
      | Some msg \<Rightarrow>
          if mtype msg \<noteq> Some ''message'' then (None, out)
          else if \<not> data_truthy (mdata msg) then (None, out)
          else (case handle_payload loads cb (mdata msg) out of
                  (None, out') \<Rightarrow> (None, out')
                | (Some e, out') \<Rightarrow> (None, out')))"

text \<open>
  The \<open>for message in ps.listen()\<close> loop. Each message comes with the value \<open>_running\<close>
  has when it is received; the loop ends at the first message that finds it false, or with
  the exception that handling a message lets through.
\<close>

fun listener_loop ::
  "(string \<Rightarrow> error + json) \<Rightarrow> emit_cb option \<Rightarrow> (bool \<times> message option) list \<Rightarrow> (json \<times> json) list
     \<Rightarrow> error option \<times> (json \<times> json) list" where
  "listener_loop loads cb [] out = (None, out)"
| "listener_loop loads cb ((running, m) # rest) out =
     (if \<not> running then (None, out)
      else case handle_message loads cb m out of
             (Some e, out') \<Rightarrow> (Some e, out')
           | (None, out') \<Rightarrow> listener_loop loads cb rest out')"

section \<open>Vocabulary of the properties\<close>

text \<open>No two rows of \<open>job_logs\<close> share \<open>(job_id, seq)\<close>.\<close>

definition logs_unique :: "log_row list \<Rightarrow> bool" where
  "logs_unique tbl = distinct (map log_pk tbl)"

text \<open>The parameter tuples of line 111, and the rows of a batch whose key is not in the table.\<close>

definition tag_rows :: "string \<Rightarrow> (int \<times> int \<times> string) list \<Rightarrow> log_row list" where
  "tag_rows job_id rows = map (\<lambda>(seq, ts, line). (job_id, seq, ts, line)) rows"

definition new_rows ::
  "string \<Rightarrow> (int \<times> int \<times> string) list \<Rightarrow> log_row list \<Rightarrow> (int \<times> int \<times> string) list" where
  "new_rows job_id rows tbl = filter (\<lambda>r. (job_id, fst r) \<notin> set (map log_pk tbl)) rows"

text \<open>A sequence of \<open>insert_job_logs\<close> calls, each on the table the previous one left.\<close>

fun run_inserts ::
  "(string \<times> (int \<times> int \<times> string) list) list \<Rightarrow> log_row list \<Rightarrow> log_row list" where
  "run_inserts [] tbl = tbl"
| "run_inserts ((job_id, rows) # cs) tbl = run_inserts cs (snd (insert_job_logs job_id rows tbl))"









text \<open>Job \<open>j1\<close> with two log lines and a sync key that holds the one character U+00B2
  (superscript two).\<close>

definition superscript_world :: world where
  "superscript_world =
     \<lparr> redis = [(''bench_job_log:j1'', RList [''l0'', ''l1'']),
                (''bench_job_log_sync:j1'', RStr [CHR 0xB2])],
       jobs = [], job_logs = [] \<rparr>"

text \<open>No two rows of \<open>jobs\<close> share an \<open>id\<close>; the values of a job that the columns of
  \<open>jobs\<close> can hold; and a sequence of \<open>upsert_job\<close> calls, each with its clock reading.\<close>

definition jobs_unique :: "job_row list \<Rightarrow> bool" where
  "jobs_unique tbl = distinct (map r_id tbl)"

definition job_fits :: "int \<Rightarrow> job \<Rightarrow> bool" where
  "job_fits now j =
     (fits_bigint (int_or_zero (created_at j)) \<and> fits_bigint (int_or_zero (started_at j))
      \<and> fits_bigint (int_or_zero (finished_at j)) \<and> fits_opt fits_integer (exit_code j)
      \<and> fits_bigint now)"

fun run_upserts ::
  "(json \<Rightarrow> error + string) \<Rightarrow> (json \<Rightarrow> string) \<Rightarrow> (int \<times> job) list \<Rightarrow> job_row list \<Rightarrow> job_row list" where
  "run_upserts dumps str_of [] tbl = tbl"
| "run_upserts dumps str_of ((now, j) # cs) tbl =
     run_upserts dumps str_of cs (snd (upsert_job dumps str_of now j tbl))"

text \<open>Stand-ins for \<open>json.loads\<close>, \<open>json.dumps\<close> and \<open>str\<close> in the examples: they agree
  with Python on the few values the examples use. The general statements hold for every
  choice of the three functions.\<close>

definition loads_example :: "string \<Rightarrow> error + json" where
  "loads_example s =
     (if s = ''{}'' then Inr (JObj [])
      else if s = ''[]'' then Inr (JArr [])
      else if s = ''null'' then Inr JNull
      else if s = ''true'' then Inr (JBool True)
      else Inl ValueError)"

definition dumps_example :: "json \<Rightarrow> error + string" where
  "dumps_example v =
     (case v of
        JObj [] \<Rightarrow> Inr ''{}''
      | JArr [] \<Rightarrow> Inr ''[]''
      | JNull \<Rightarrow> Inr ''null''
      | JBool True \<Rightarrow> Inr ''true''
      | _ \<Rightarrow> Inl TypeError)"

definition str_example :: "json \<Rightarrow> string" where
  "str_example v =
     (case v of
        JObj [] \<Rightarrow> ''{}''
      | JArr [] \<Rightarrow> ''[]''
      | JNull \<Rightarrow> ''None''
      | JBool True \<Rightarrow> ''True''
      | _ \<Rightarrow> [])"

text \<open>Job \<open>j1\<close> as the reconciler sees it while queued and, later, while running.\<close>

definition job_queued :: job where
  "job_queued =
     \<lparr> jid = ''j1'', status = Some ''queued'', created_at = Some 1700000000, started_at = None,
       finished_at = None, exit_code = None, result_path = None, err = None, params = JObj [] \<rparr>"

definition job_running :: job where
  "job_running =
     \<lparr> jid = ''j1'', status = Some ''running'', created_at = Some 1700000000,
       started_at = Some 1700000005, finished_at = None, exit_code = None, result_path = None,
       err = None, params = JObj [] \<rparr>"

text \<open>A cycle's surroundings for the examples, and two stores: one job whose
  \<open>created_at\<close> is not a number, and the same next to a job whose \<open>params\<close> is not
  JSON.\<close>

definition example_env :: env where
  "example_env =
     \<lparr> env_loads = loads_example, env_dumps = dumps_example, env_str = str_example,
       env_limit = 1000, env_now = 1700000000 \<rparr>"



text \<open>The arrivals of a burst as wake-ups: no wait reaches the timeout.\<close>

fun timed_gots :: "nat \<Rightarrow> (nat \<times> event) list \<Rightarrow> (nat \<times> wake) list" where
  "timed_gots now [] = []"
| "timed_gots now ((gap, evt) # rest) = (now + gap, Got evt) # timed_gots (now + gap) rest"

text \<open>For the examples: a store that keeps the batches it is given, a store whose
  \<open>executemany\<close> always raises, \<open>float\<close> on the numbers the examples use, an event, and
  the state in which the task starts.\<close>

definition float_example :: "json \<Rightarrow> error + pyfloat" where
  "float_example v =
     (case v of JInt n \<Rightarrow> Inr (Finite n 0) | JFloat f \<Rightarrow> Inr f | _ \<Rightarrow> Inl TypeError)"

definition keeping_writer :: "event_row list list writer_env" where
  "keeping_writer =
     \<lparr> w_float = float_example, w_dumps = dumps_example,
       w_executemany = (\<lambda>ps db. (None, db @ [ps])) \<rparr>"

definition failing_writer :: "event_row list list writer_env" where
  "failing_writer =
     \<lparr> w_float = float_example, w_dumps = dumps_example,
       w_executemany = (\<lambda>ps db. (Some IOError, db)) \<rparr>"

definition click :: "string \<Rightarrow> event" where
  "click sid =
     [(''session_id'', JStr sid), (''timestamp'', JInt 1700000000), (''type'', JStr ''click''),
      (''payload'', JObj [])]"

definition writer_start :: "'db \<Rightarrow> 'db writer_state" where
  "writer_start db = \<lparr> buffer = [], last_flush = 0, conn = db, batches = [] \<rparr>"

text \<open>What a message delivers to a registered callback: the pair of \<open>job_id\<close> and
  \<open>line\<close> of a message of type \<open>message\<close> whose data is the text of a JSON object with a true
  \<open>job_id\<close> and a \<open>line\<close> that is not null; nothing for any other message.\<close>

definition delivery_of :: "(string \<Rightarrow> error + json) \<Rightarrow> message option \<Rightarrow> (json \<times> json) option" where
  "delivery_of loads m =
     (case m of
        None \<Rightarrow> None
      | Some msg \<Rightarrow>
          if mtype msg = Some ''message'' then
            (case mdata msg of
               DStr s \<Rightarrow>
                 if s = [] then None
                 else (case loads s of
                         Inr (JObj kvs) \<Rightarrow>
                           (case map_of kvs ''job_id'' of
                              None \<Rightarrow> None
                            | Some jv \<Rightarrow>
                                (case map_of kvs ''line'' of
                                   None \<Rightarrow> None
                                 | Some lv \<Rightarrow>
                                     if truthy jv \<and> lv \<noteq> JNull then Some (jv, lv) else None))
                       | _ \<Rightarrow> None)
             | _ \<Rightarrow> None)
          else None)"

text \<open>\<open>json.loads\<close> on the payloads of the examples, a callback that raises on every
  call, and broadcast messages.\<close>

definition loads_messages :: "string \<Rightarrow> error + json" where
  "loads_messages s =
     (if s = ''{\"job_id\": \"j1\", \"line\": \"hello\"}''
        then Inr (JObj [(''job_id'', JStr ''j1''), (''line'', JStr ''hello'')])
      else if s = ''{\"job_id\": \"j1\", \"line\": \"\"}''
        then Inr (JObj [(''job_id'', JStr ''j1''), (''line'', JStr [])])
      else if s = ''{\"job_id\": \"\", \"line\": \"hello\"}''
        then Inr (JObj [(''job_id'', JStr []), (''line'', JStr ''hello'')])
      else if s = ''{\"job_id\": \"j1\"}''
        then Inr (JObj [(''job_id'', JStr ''j1'')])
      else if s = ''{\"line\": \"hello\"}''
        then Inr (JObj [(''line'', JStr ''hello'')])
      else Inl ValueError)"

definition raising_cb :: emit_cb where
  "raising_cb job_id lv = Some TypeError"

definition broadcast :: "string \<Rightarrow> message option" where
  "broadcast s = Some \<lparr> mtype = Some ''message'', mdata = DStr s \<rparr>"

section \<open>Decimal strings\<close>

















lemma py_int_rejects_separators:
  "py_int (''7'' @ [CHR 0x1F]) = Inl ValueError \<and> py_int (CHR 0x1C # ''7'') = Inl ValueError
   \<and> py_int (''7'' @ [CHR 0xA0]) = Inr 7 \<and> py_int ('' +1_000 '') = Inr 1000"
  by code_simp


section \<open>Inserting log rows\<close>

lemma executemany_logs_append:
  "executemany_logs tbl ps = Inr tbl' \<Longrightarrow> tbl' = tbl @ ps"
proof (induction ps arbitrary: tbl)
  case Nil
  then show ?case by simp
next
  case (Cons p ps)
  from Cons.prems obtain t1 where t1: "insert_log_row tbl p = Inr t1"
    and rest: "executemany_logs t1 ps = Inr tbl'"
    by (auto split: sum.splits)
  from t1 have "t1 = tbl @ [p]"
    by (auto simp: insert_log_row_def split: if_splits)
  with Cons.IH[OF rest] show ?case by simp
qed

lemma executemany_logs_unique:
  "executemany_logs tbl ps = Inr tbl' \<Longrightarrow> logs_unique tbl \<Longrightarrow> logs_unique tbl'"
proof (induction ps arbitrary: tbl)
  case Nil
  then show ?case by simp
next
  case (Cons p ps)
  from Cons.prems(1) obtain t1 where t1: "insert_log_row tbl p = Inr t1"
    and rest: "executemany_logs t1 ps = Inr tbl'"
    by (auto split: sum.splits)
  from t1 Cons.prems(2) have "logs_unique t1"
    by (auto simp: insert_log_row_def logs_unique_def split: if_splits)
  with rest show ?case by (rule Cons.IH)
qed

lemma executemany_logs_ok:
  "\<forall>p \<in> set ps. fits_bigint (fst (snd p)) \<and> fits_bigint (fst (snd (snd p))) \<Longrightarrow>
   distinct (map log_pk ps) \<Longrightarrow> set (map log_pk ps) \<inter> set (map log_pk tbl) = {} \<Longrightarrow>
   executemany_logs tbl ps = Inr (tbl @ ps)"
proof (induction ps arbitrary: tbl)
  case Nil
  then show ?case by simp
next
  case (Cons p ps)
  have step: "insert_log_row tbl p = Inr (tbl @ [p])"
    using Cons.prems by (auto simp: insert_log_row_def)
  have "executemany_logs (tbl @ [p]) ps = Inr ((tbl @ [p]) @ ps)"
    using Cons.prems by (intro Cons.IH) auto
  with step show ?case by simp
qed

lemma existing_in_range:
  assumes "r \<in> set rows"
  shows "fst r \<in> set (map (\<lambda>r. fst (snd r))
            (filter (\<lambda>t. fst t = job_id \<and> Min (set (map fst rows)) \<le> fst (snd t)
                         \<and> fst (snd t) \<le> Max (set (map fst rows))) tbl))
         \<longleftrightarrow> (job_id, fst r) \<in> set (map log_pk tbl)"
proof -
  have "Min (set (map fst rows)) \<le> fst r" "fst r \<le> Max (set (map fst rows))"
    using assms by (auto intro: Min_le Max_ge)
  then show ?thesis
    by (auto simp: log_pk_def image_iff) force+
qed

lemma to_insert_eq:
  "filter (\<lambda>r. fst r \<notin> set (map (\<lambda>r. fst (snd r))
            (filter (\<lambda>t. fst t = job_id \<and> Min (set (map fst rows)) \<le> fst (snd t)
                         \<and> fst (snd t) \<le> Max (set (map fst rows))) tbl))) rows
   = filter (\<lambda>r. (job_id, fst r) \<notin> set (map log_pk tbl)) rows"
  by (rule filter_cong[OF refl]) (simp only: existing_in_range)

lemma insert_job_logs_alt:
  "insert_job_logs job_id rows tbl =
     (if new_rows job_id rows tbl = [] then (Inr 0, tbl)
      else case executemany_logs tbl (tag_rows job_id (new_rows job_id rows tbl)) of
             Inr tbl' \<Rightarrow> (Inr (length (new_rows job_id rows tbl)), tbl')
           | Inl e \<Rightarrow> (Inl e, tbl))"
  unfolding insert_job_logs_def Let_def to_insert_eq new_rows_def tag_rows_def
  by auto

lemma insert_job_logs_unique:
  "logs_unique tbl \<Longrightarrow> logs_unique (snd (insert_job_logs job_id rows tbl))"
  by (auto simp: insert_job_logs_alt split: sum.splits dest: executemany_logs_unique)

lemma run_inserts_unique:
  "logs_unique tbl \<Longrightarrow> logs_unique (run_inserts calls tbl)"
proof (induction calls arbitrary: tbl)
  case Nil
  then show ?case by simp
next
  case (Cons c calls)
  obtain job_id rows where c: "c = (job_id, rows)" by (cases c)
  show ?case unfolding c run_inserts.simps
    by (rule Cons.IH) (rule insert_job_logs_unique[OF Cons.prems])
qed

lemma insert_job_logs_result:
  assumes "insert_job_logs job_id rows tbl = (Inr n, tbl')"
  shows "tbl' = tbl @ tag_rows job_id (new_rows job_id rows tbl) \<and> n = length (new_rows job_id rows tbl)"
  using assms
  by (auto simp: insert_job_logs_alt tag_rows_def split: if_splits sum.splits dest: executemany_logs_append)

lemma insert_job_logs_failed:
  "insert_job_logs job_id rows tbl = (Inl e, tbl') \<Longrightarrow> tbl' = tbl"
  by (auto simp: insert_job_logs_alt split: if_splits sum.splits)

lemma insert_job_logs_present:
  assumes "\<forall>r \<in> set rows. (job_id, fst r) \<in> set (map log_pk tbl)"
  shows "insert_job_logs job_id rows tbl = (Inr 0, tbl)"
proof -
  have "new_rows job_id rows tbl = []"
    using assms by (auto simp: new_rows_def filter_empty_conv)
  then show ?thesis by (simp add: insert_job_logs_alt)
qed

lemma log_pk_tag_rows: "map log_pk (tag_rows job_id rows) = map (\<lambda>r. (job_id, fst r)) rows"
  by (auto simp: tag_rows_def log_pk_def)

lemma insert_job_logs_replay:
  assumes "insert_job_logs job_id rows tbl = (Inr n, tbl')"
  shows "insert_job_logs job_id rows tbl' = (Inr 0, tbl')"
proof (rule insert_job_logs_present, rule ballI)
  fix r assume r: "r \<in> set rows"
  from insert_job_logs_result[OF assms]
  have tbl': "tbl' = tbl @ tag_rows job_id (new_rows job_id rows tbl)" by simp
  show "(job_id, fst r) \<in> set (map log_pk tbl')"
  proof (cases "(job_id, fst r) \<in> set (map log_pk tbl)")
    case True
    then show ?thesis by (auto simp: tbl')
  next
    case False
    with r have "r \<in> set (new_rows job_id rows tbl)" by (simp add: new_rows_def)
    then have "(job_id, fst r) \<in> set (map log_pk (tag_rows job_id (new_rows job_id rows tbl)))"
      unfolding log_pk_tag_rows by force
    then show ?thesis by (simp add: tbl')
  qed
qed

lemma insert_job_logs_no_error:
  assumes d: "distinct (map fst rows)"
    and f: "\<forall>r \<in> set rows. fits_bigint (fst r) \<and> fits_bigint (fst (snd r))"
  shows "insert_job_logs job_id rows tbl =
           (Inr (length (new_rows job_id rows tbl)), tbl @ tag_rows job_id (new_rows job_id rows tbl))"
proof -
  let ?n = "new_rows job_id rows tbl"
  have d': "distinct (map fst ?n)"
    using d unfolding new_rows_def by (rule distinct_map_filter)
  have "distinct (map log_pk (tag_rows job_id ?n))"
    unfolding log_pk_tag_rows using d'
    by (simp add: distinct_map inj_on_def comp_def)
  moreover have "set (map log_pk (tag_rows job_id ?n)) \<inter> set (map log_pk tbl) = {}"
    unfolding log_pk_tag_rows by (auto simp: new_rows_def)
  moreover have "\<forall>p \<in> set (tag_rows job_id ?n). fits_bigint (fst (snd p)) \<and> fits_bigint (fst (snd (snd p)))"
    using f by (auto simp: tag_rows_def new_rows_def)
  ultimately have "executemany_logs tbl (tag_rows job_id ?n) = Inr (tbl @ tag_rows job_id ?n)"
    by (intro executemany_logs_ok)
  then show ?thesis
    by (simp add: insert_job_logs_alt tag_rows_def)
qed

lemma sync_logs_for_job_unique:
  assumes "sync_logs_for_job L t job_id w = Inr w'" "logs_unique (job_logs w)"
  shows "logs_unique (job_logs w')"
  using assms insert_job_logs_unique[of "job_logs w" job_id]
  by (auto simp: sync_logs_for_job_def Let_def split: sum.splits if_splits prod.splits)
     (metis snd_conv)+

section \<open>The log sync reads one window\<close>










section \<open>Claim C1: the window read by one sync call\<close>






section \<open>Claim C2: no duplicate log rows\<close>

text \<open>
  Claim C2. After any sequence of \<open>insert_job_logs\<close> calls no two rows of \<open>job_logs\<close>
  share \<open>(job_id, seq)\<close>, and one call keeps it so. A call that returns has appended the
  rows of the batch whose key was absent, and only them; calling it again with the same batch
  inserts nothing and returns 0. A batch whose rows are all present returns 0 without an error,
  a batch of distinct, representable seqs never raises, and a call that raises leaves the table
  as it was. Running the log sync and then running it again from the watermark it started
  from leaves the table free of duplicates.
\<close>

theorem insert_job_logs_no_duplicates:
  "logs_unique (run_inserts calls [])
   \<and> (logs_unique tbl \<longrightarrow> logs_unique (snd (insert_job_logs job_id rows tbl)))
   \<and> (\<forall>n tbl'. insert_job_logs job_id rows tbl = (Inr n, tbl') \<longrightarrow>
          tbl' = tbl @ tag_rows job_id (new_rows job_id rows tbl)
        \<and> n = length (new_rows job_id rows tbl)
        \<and> insert_job_logs job_id rows tbl' = (Inr 0, tbl'))
   \<and> (\<forall>e tbl'. insert_job_logs job_id rows tbl = (Inl e, tbl') \<longrightarrow> tbl' = tbl)
   \<and> ((\<forall>r \<in> set rows. (job_id, fst r) \<in> set (map log_pk tbl)) \<longrightarrow>
          insert_job_logs job_id rows tbl = (Inr 0, tbl))
   \<and> (distinct (map fst rows) \<and> (\<forall>r \<in> set rows. fits_bigint (fst r) \<and> fits_bigint (fst (snd r))) \<longrightarrow>
          insert_job_logs job_id rows tbl =
            (Inr (length (new_rows job_id rows tbl)), tbl @ tag_rows job_id (new_rows job_id rows tbl)))
   \<and> (logs_unique (job_logs w) \<and> sync_logs_for_job L t job_id w = Inr w1
        \<and> sync_logs_for_job L t' job_id (w1\<lparr> redis := redis w \<rparr>) = Inr w2 \<longrightarrow>
          logs_unique (job_logs w1) \<and> logs_unique (job_logs w2))"
proof (intro conjI allI impI)
  show "logs_unique (run_inserts calls [])"
    by (rule run_inserts_unique) (simp add: logs_unique_def)
next
  assume "logs_unique tbl"
  then show "logs_unique (snd (insert_job_logs job_id rows tbl))"
    by (rule insert_job_logs_unique)
next
  fix n tbl' assume a: "insert_job_logs job_id rows tbl = (Inr n, tbl')"
  from insert_job_logs_result[OF a]
  show "tbl' = tbl @ tag_rows job_id (new_rows job_id rows tbl)"
    and "n = length (new_rows job_id rows tbl)" by simp_all
  from a show "insert_job_logs job_id rows tbl' = (Inr 0, tbl')"
    by (rule insert_job_logs_replay)
next
  fix e tbl' assume "insert_job_logs job_id rows tbl = (Inl e, tbl')"
  then show "tbl' = tbl" by (rule insert_job_logs_failed)
next
  assume "\<forall>r \<in> set rows. (job_id, fst r) \<in> set (map log_pk tbl)"
  then show "insert_job_logs job_id rows tbl = (Inr 0, tbl)"
    by (rule insert_job_logs_present)
next
  assume "distinct (map fst rows) \<and> (\<forall>r \<in> set rows. fits_bigint (fst r) \<and> fits_bigint (fst (snd r)))"
  then show "insert_job_logs job_id rows tbl =
            (Inr (length (new_rows job_id rows tbl)), tbl @ tag_rows job_id (new_rows job_id rows tbl))"
    by (intro insert_job_logs_no_error) simp_all
next
  assume a: "logs_unique (job_logs w) \<and> sync_logs_for_job L t job_id w = Inr w1
        \<and> sync_logs_for_job L t' job_id (w1\<lparr> redis := redis w \<rparr>) = Inr w2"
  then have u1: "logs_unique (job_logs w1)"
    using sync_logs_for_job_unique by blast
  then have "logs_unique (job_logs (w1\<lparr> redis := redis w \<rparr>))" by simp
  with a have u2: "logs_unique (job_logs w2)"
    using sync_logs_for_job_unique by blast
  from u1 show "logs_unique (job_logs w1)" .
  from u2 show "logs_unique (job_logs w2)" .
qed

theorem insert_job_logs_no_duplicates_witness:
  "logs_unique [(''j1'', 0, 5, ''a'')]
   \<and> distinct (map fst [(0::int, 6::int, ''a''), (1, 6, ''b'')])
   \<and> fits_bigint 0 \<and> fits_bigint 1 \<and> fits_bigint 6
   \<and> insert_job_logs ''j1'' [(0, 6, ''a''), (1, 6, ''b'')] [(''j1'', 0, 5, ''a'')]
       = (Inr 1, [(''j1'', 0, 5, ''a''), (''j1'', 1, 6, ''b'')])
   \<and> insert_job_logs ''j1'' [(0, 6, ''a''), (1, 6, ''b'')] [(''j1'', 0, 5, ''a''), (''j1'', 1, 6, ''b'')]
       = (Inr 0, [(''j1'', 0, 5, ''a''), (''j1'', 1, 6, ''b'')])
   \<and> logs_unique [(''j1'', 0, 5, ''a''), (''j1'', 1, 6, ''b'')]"
proof -
  let ?tbl = "[(''j1'', 0::int, 5::int, ''a'')]"
  let ?rows = "[(0::int, 6::int, ''a''), (1, 6, ''b'')]"
  have u: "logs_unique ?tbl" by code_simp
  have d: "distinct (map fst ?rows)" by simp
  have f: "\<forall>r \<in> set ?rows. fits_bigint (fst r) \<and> fits_bigint (fst (snd r))"
    by (simp add: fits_bigint_def)
  have n: "new_rows ''j1'' ?rows ?tbl = [(1, 6, ''b'')]" by code_simp
  note T = insert_job_logs_no_duplicates[of _ ?tbl "''j1''" ?rows]
  from T d f have r1: "insert_job_logs ''j1'' ?rows ?tbl
       = (Inr (length (new_rows ''j1'' ?rows ?tbl)), ?tbl @ tag_rows ''j1'' (new_rows ''j1'' ?rows ?tbl))"
    by blast
  then have r1': "insert_job_logs ''j1'' ?rows ?tbl = (Inr 1, [(''j1'', 0, 5, ''a''), (''j1'', 1, 6, ''b'')])"
    by (simp add: n tag_rows_def)
  with T have r2: "insert_job_logs ''j1'' ?rows [(''j1'', 0, 5, ''a''), (''j1'', 1, 6, ''b'')]
       = (Inr 0, [(''j1'', 0, 5, ''a''), (''j1'', 1, 6, ''b'')])"
    by blast
  from T u have "logs_unique (snd (insert_job_logs ''j1'' ?rows ?tbl))" by blast
  then have u2: "logs_unique [(''j1'', 0, 5, ''a''), (''j1'', 1, 6, ''b'')]"
    by (simp add: r1')
  have f': "fits_bigint 0 \<and> fits_bigint 1 \<and> fits_bigint 6" by (simp add: fits_bigint_def)
  from u d f' r1' r2 u2 show ?thesis by blast
qed

section \<open>Claim C6: a trimmed log list\<close>



















section \<open>Claim C9: a watermark that is not a number\<close>

lemma read_last_idx_default:
  "v = None \<or> v = Some [] \<or> (\<exists>s. v = Some s \<and> \<not> str_isdigit s) \<Longrightarrow> read_last_idx v = Inr 0"
  by (auto simp: read_last_idx_def)

text \<open>
  Claim C9 against the code. The string of the single character U+00B2 is not composed of
  decimal digits, so the claim has the sync read the list from index 0. \<open>isdigit()\<close> accepts
  it, \<open>int()\<close> then raises \<open>ValueError\<close>, and the sync call raises instead of reading anything.
\<close>

theorem sync_logs_for_job_superscript_watermark:
  "\<not> list_all isdecimal_char [CHR 0xB2]
   \<and> str_isdigit [CHR 0xB2]
   \<and> py_int [CHR 0xB2] = Inl ValueError
   \<and> sync_logs_for_job 1000 1700000000 ''j1'' superscript_world = Inl ValueError"
proof -
  have a: "\<not> list_all isdecimal_char [CHR 0xB2]" by code_simp
  have b: "str_isdigit [CHR 0xB2]" by code_simp
  have c: "py_int [CHR 0xB2] = Inl ValueError" by code_simp
  have d: "sync_logs_for_job 1000 1700000000 ''j1'' superscript_world = Inl ValueError" by code_simp
  from a b c d show ?thesis by blast
qed

section \<open>Claim C4: one row per job\<close>

lemma insert_job_row_fits:
  "insert_job_row tbl (row_of_job dumps str_of now j) =
     (if \<not> job_fits now j then Inl ConversionError
      else if jid j \<in> set (map r_id tbl) then Inl ConstraintError
      else Inr (tbl @ [row_of_job dumps str_of now j]))"
  by (simp add: insert_job_row_def row_of_job_def job_fits_def fits_opt_def split: option.splits)

lemma upsert_job_alt:
  "upsert_job dumps str_of now j tbl =
     (if job_fits now j
      then (None, filter (\<lambda>r. r_id r \<noteq> jid j) tbl @ [row_of_job dumps str_of now j])
      else (Some ConversionError, tbl))"
proof -
  have "jid j \<notin> set (map r_id (filter (\<lambda>r. r_id r \<noteq> jid j) tbl))" by auto
  then show ?thesis
    unfolding upsert_job_def Let_def insert_job_row_fits by simp
qed

lemma r_id_row_of_job: "r_id (row_of_job dumps str_of now j) = jid j"
  by (simp add: row_of_job_def)

lemma upsert_job_unique:
  "jobs_unique tbl \<Longrightarrow> jobs_unique (snd (upsert_job dumps str_of now j tbl))"
  by (auto simp: upsert_job_alt jobs_unique_def r_id_row_of_job distinct_map_filter)

lemma run_upserts_unique:
  "jobs_unique tbl \<Longrightarrow> jobs_unique (run_upserts dumps str_of calls tbl)"
proof (induction calls arbitrary: tbl)
  case Nil
  then show ?case by simp
next
  case (Cons c calls)
  obtain now j where c: "c = (now, j)" by (cases c)
  show ?case unfolding c run_upserts.simps
    by (rule Cons.IH) (rule upsert_job_unique[OF Cons.prems])
qed

lemma run_upserts_append:
  "run_upserts dumps str_of (cs @ ds) tbl = run_upserts dumps str_of ds (run_upserts dumps str_of cs tbl)"
  by (induction cs arbitrary: tbl) auto

lemma upsert_job_rows:
  assumes "upsert_job dumps str_of now j tbl = (None, tbl')"
  shows "filter (\<lambda>r. r_id r = jid j) tbl' = [row_of_job dumps str_of now j]"
    and "filter (\<lambda>r. r_id r \<noteq> jid j) tbl' = filter (\<lambda>r. r_id r \<noteq> jid j) tbl"
  using assms
  by (auto simp: upsert_job_alt r_id_row_of_job filter_empty_conv split: if_splits)

text \<open>
  Claim C4. A call of \<open>upsert_job\<close> that returns leaves exactly one row with the job's id,
  built from this call alone (every column, also the ones this call leaves empty), and the
  rows of the other ids as they were; a call that raises leaves the table as it was before
  the DELETE. The call returns exactly when the values fit their columns. No sequence of
  calls puts two rows with one id into the table; after any sequence that ends with a call
  that returns, and in particular after two calls with one id, the row of that id is the row
  of the last call.
\<close>

theorem upsert_job_one_row:
  "(\<forall>tbl'. upsert_job dumps str_of now j tbl = (None, tbl') \<longrightarrow>
       filter (\<lambda>r. r_id r = jid j) tbl' = [row_of_job dumps str_of now j]
     \<and> filter (\<lambda>r. r_id r \<noteq> jid j) tbl' = filter (\<lambda>r. r_id r \<noteq> jid j) tbl)
   \<and> (\<forall>e tbl'. upsert_job dumps str_of now j tbl = (Some e, tbl') \<longrightarrow> tbl' = tbl)
   \<and> ((fst (upsert_job dumps str_of now j tbl) = None) = job_fits now j)
   \<and> (jobs_unique tbl \<longrightarrow> jobs_unique (snd (upsert_job dumps str_of now j tbl)))
   \<and> jobs_unique (run_upserts dumps str_of calls [])
   \<and> (job_fits now j \<longrightarrow>
        filter (\<lambda>r. r_id r = jid j) (run_upserts dumps str_of (calls @ [(now, j)]) tbl)
          = [row_of_job dumps str_of now j])
   \<and> (jid j' = jid j \<and> job_fits now' j' \<and> job_fits now j \<longrightarrow>
        filter (\<lambda>r. r_id r = jid j)
          (snd (upsert_job dumps str_of now j (snd (upsert_job dumps str_of now' j' tbl))))
          = [row_of_job dumps str_of now j])"
proof (intro conjI allI impI)
  fix tbl' assume a: "upsert_job dumps str_of now j tbl = (None, tbl')"
  from upsert_job_rows[OF a]
  show "filter (\<lambda>r. r_id r = jid j) tbl' = [row_of_job dumps str_of now j]"
    and "filter (\<lambda>r. r_id r \<noteq> jid j) tbl' = filter (\<lambda>r. r_id r \<noteq> jid j) tbl"
    by simp_all
next
  fix e tbl' assume "upsert_job dumps str_of now j tbl = (Some e, tbl')"
  then show "tbl' = tbl" by (simp add: upsert_job_alt split: if_splits)
next
  show "(fst (upsert_job dumps str_of now j tbl) = None) = job_fits now j"
    by (simp add: upsert_job_alt)
next
  assume "jobs_unique tbl"
  then show "jobs_unique (snd (upsert_job dumps str_of now j tbl))"
    by (rule upsert_job_unique)
next
  show "jobs_unique (run_upserts dumps str_of calls [])"
    by (rule run_upserts_unique) (simp add: jobs_unique_def)
next
  assume f: "job_fits now j"
  let ?t = "run_upserts dumps str_of calls tbl"
  have "upsert_job dumps str_of now j ?t
          = (None, filter (\<lambda>r. r_id r \<noteq> jid j) ?t @ [row_of_job dumps str_of now j])"
    using f by (simp add: upsert_job_alt)
  from upsert_job_rows(1)[OF this]
  show "filter (\<lambda>r. r_id r = jid j) (run_upserts dumps str_of (calls @ [(now, j)]) tbl)
          = [row_of_job dumps str_of now j]"
    using f by (simp add: run_upserts_append upsert_job_alt)
next
  assume a: "jid j' = jid j \<and> job_fits now' j' \<and> job_fits now j"
  let ?t = "snd (upsert_job dumps str_of now' j' tbl)"
  have "upsert_job dumps str_of now j ?t
          = (None, filter (\<lambda>r. r_id r \<noteq> jid j) ?t @ [row_of_job dumps str_of now j])"
    using a by (simp add: upsert_job_alt)
  from upsert_job_rows(1)[OF this]
  show "filter (\<lambda>r. r_id r = jid j) (snd (upsert_job dumps str_of now j ?t))
          = [row_of_job dumps str_of now j]"
    using a by (simp add: upsert_job_alt)
qed

theorem upsert_job_one_row_witness:
  "jid job_queued = jid job_running
   \<and> job_fits 1700000001 job_queued \<and> job_fits 1700000006 job_running
   \<and> filter (\<lambda>r. r_id r = jid job_running)
        (snd (upsert_job dumps_example str_example 1700000006 job_running
               (snd (upsert_job dumps_example str_example 1700000001 job_queued []))))
       = [row_of_job dumps_example str_example 1700000006 job_running]
   \<and> row_of_job dumps_example str_example 1700000006 job_running
       = \<lparr> r_id = ''j1'', r_status = Some ''running'', r_created_at = Some 1700000000,
           r_started_at = Some 1700000005, r_finished_at = Some 0, r_exit_code = None,
           r_result_path = None, r_error = None, r_params = Some ''{}'',
           r_last_updated = Some 1700000006 \<rparr>
   \<and> snd (upsert_job dumps_example str_example 1700000006 job_running
               (snd (upsert_job dumps_example str_example 1700000001 job_queued [])))
       = [row_of_job dumps_example str_example 1700000006 job_running]"
proof -
  have h1: "jid job_queued = jid job_running" by (simp add: job_queued_def job_running_def)
  have h2: "job_fits 1700000001 job_queued" by code_simp
  have h3: "job_fits 1700000006 job_running" by code_simp
  from upsert_job_one_row[of dumps_example str_example 1700000006 job_running "[]" _
         job_queued 1700000001] h1 h2 h3
  have c: "filter (\<lambda>r. r_id r = jid job_running)
        (snd (upsert_job dumps_example str_example 1700000006 job_running
               (snd (upsert_job dumps_example str_example 1700000001 job_queued []))))
       = [row_of_job dumps_example str_example 1700000006 job_running]"
    by blast
  have r: "row_of_job dumps_example str_example 1700000006 job_running
       = \<lparr> r_id = ''j1'', r_status = Some ''running'', r_created_at = Some 1700000000,
           r_started_at = Some 1700000005, r_finished_at = Some 0, r_exit_code = None,
           r_result_path = None, r_error = None, r_params = Some ''{}'',
           r_last_updated = Some 1700000006 \<rparr>"
    by code_simp
  have t: "snd (upsert_job dumps_example str_example 1700000006 job_running
               (snd (upsert_job dumps_example str_example 1700000001 job_queued [])))
       = [row_of_job dumps_example str_example 1700000006 job_running]"
    by code_simp
  from h1 h2 h3 c r t show ?thesis by blast
qed

section \<open>Claim C5: malformed job metadata\<close>














lemma separator_padded_integer_skipped:
  "sync_one_job example_env ''bench_job:j1''
     \<lparr> redis = [(''bench_job:j1'', RHash [(''status'', ''running''),
                                               (''created_at'', ''7'' @ [CHR 0x1F])])],
       jobs = [], job_logs = [] \<rparr>
   = (Some ValueError,
      \<lparr> redis = [(''bench_job:j1'', RHash [(''status'', ''running''),
                                                (''created_at'', ''7'' @ [CHR 0x1F])])],
        jobs = [], job_logs = [] \<rparr>)"
  by code_simp




section \<open>Claim C3: when the batched writer flushes\<close>

lemma run_writer_append:
  "run_writer W B (ws1 @ ws2) s =
     (case run_writer W B ws1 s of
        (Some e, s') \<Rightarrow> (Some e, s')
      | (None, s') \<Rightarrow> run_writer W B ws2 s')"
proof (induction ws1 arbitrary: s)
  case Nil
  then show ?case by simp
next
  case (Cons a ws1)
  obtain t wk where a: "a = (t, wk)" by (cases a)
  show ?case
    by (cases "writer_step W B t wk s") (auto simp: a Cons.IH split: option.splits)
qed

lemma writer_step_got_below:
  "length (buffer s) + 1 < B \<Longrightarrow> writer_step W B t (Got evt) s = (None, s\<lparr> buffer := buffer s @ [evt] \<rparr>)"
  by (simp add: writer_step_def Let_def)

lemma writer_step_got_full:
  "B \<le> length (buffer s) + 1 \<Longrightarrow>
   writer_step W B t (Got evt) s =
     (case insert_batch W (buffer s @ [evt]) (conn s) of
        (None, db) \<Rightarrow>
          (None, s\<lparr> buffer := [], last_flush := t, conn := db, batches := batches s @ [buffer s @ [evt]] \<rparr>)
      | (Some e, db) \<Rightarrow>
          (None, s\<lparr> buffer := buffer s @ [evt], conn := db, batches := batches s @ [buffer s @ [evt]] \<rparr>))"
  by (simp add: writer_step_def Let_def)

lemma writer_step_timeout_empty:
  "buffer s = [] \<Longrightarrow> writer_step W B t TimedOut s = (None, s)"
  by (simp add: writer_step_def)

lemma writer_step_timeout_flush:
  "buffer s \<noteq> [] \<Longrightarrow>
   writer_step W B t TimedOut s =
     (case insert_batch W (buffer s) (conn s) of
        (None, db) \<Rightarrow>
          (None, s\<lparr> buffer := [], last_flush := t, conn := db, batches := batches s @ [buffer s] \<rparr>)
      | (Some e, db) \<Rightarrow> (Some e, s\<lparr> conn := db, batches := batches s @ [buffer s] \<rparr>))"
  by (simp add: writer_step_def)

lemma run_timed_gots_below:
  "length (buffer s) + length arr < B \<Longrightarrow>
   run_writer W B (timed_gots now arr) s = (None, s\<lparr> buffer := buffer s @ map snd arr \<rparr>)"
proof (induction arr arbitrary: now s)
  case Nil
  then show ?case by simp
next
  case (Cons a arr)
  obtain g e where a: "a = (g, e)" by (cases a)
  from Cons.prems have 1: "length (buffer s) + 1 < B" by simp
  from Cons.prems
  have 2: "length (buffer (s\<lparr> buffer := buffer s @ [e] \<rparr>)) + length arr < B" by simp
  show ?case
    by (simp add: a writer_step_got_below[OF 1] Cons.IH[OF 2])
qed

lemma run_timeouts_empty:
  "buffer s = [] \<Longrightarrow> run_writer W B (map (\<lambda>k. (f k, TimedOut)) ks) s = (None, s)"
  by (induction ks) (simp_all add: writer_step_timeout_empty)

lemma schedule_burst:
  "\<forall>a \<in> set arr. fst a < T \<Longrightarrow>
   schedule T now arr idle = timed_gots now arr @ schedule T (now + sum_list (map fst arr)) [] idle"
proof (induction arr arbitrary: now)
  case Nil
  then show ?case by simp
next
  case (Cons a arr)
  obtain g e where a: "a = (g, e)" by (cases a)
  from Cons.prems have g: "g div T = 0" by (simp add: a)
  from Cons.prems have "\<forall>a \<in> set arr. fst a < T" by simp
  from Cons.IH[OF this, of "now + g"] show ?case
    by (simp add: a g add.assoc)
qed

lemma timed_gots_append:
  "timed_gots now (xs @ ys) = timed_gots now xs @ timed_gots (now + sum_list (map fst xs)) ys"
  by (induction xs arbitrary: now) (auto simp: add.assoc)

lemma idle_timeouts:
  assumes "0 < T" "T \<le> idle"
  shows "schedule T now [] idle =
           (now + T, TimedOut) # map (\<lambda>k. (now + k * T, TimedOut)) [Suc 1..<Suc (idle div T)]"
proof -
  from assms have "0 < idle div T" by (simp add: div_greater_zero_iff)
  then have "1 < Suc (idle div T)" by simp
  then have "[1..<Suc (idle div T)] = 1 # [Suc 1..<Suc (idle div T)]"
    by (rule upt_conv_Cons)
  then show ?thesis by (simp del: upt_Suc)
qed

lemma run_idle_flush:
  assumes T: "0 < T" "T \<le> idle" and ne: "buffer s \<noteq> []"
  shows "run_writer W B (schedule T now [] idle) s =
           (case insert_batch W (buffer s) (conn s) of
              (None, db) \<Rightarrow>
                (None, s\<lparr> buffer := [], last_flush := now + T, conn := db,
                           batches := batches s @ [buffer s] \<rparr>)
            | (Some e, db) \<Rightarrow> (Some e, s\<lparr> conn := db, batches := batches s @ [buffer s] \<rparr>))"
proof (cases "insert_batch W (buffer s) (conn s)")
  case (Pair r db)
  show ?thesis
  proof (cases r)
    case None
    let ?s = "s\<lparr> buffer := [], last_flush := now + T, conn := db, batches := batches s @ [buffer s] \<rparr>"
    have "buffer ?s = []" by simp
    from run_timeouts_empty[OF this]
    show ?thesis
      by (simp add: idle_timeouts[OF T] writer_step_timeout_flush[OF ne] Pair None
            del: upt_Suc schedule.simps)
  next
    case (Some e)
    then show ?thesis
      by (simp add: idle_timeouts[OF T] writer_step_timeout_flush[OF ne] Pair
            del: upt_Suc schedule.simps)
  qed
qed

lemma burst_then_idle:
  assumes fast: "\<forall>a \<in> set arr. fst a < T"
    and len: "length arr < B" "arr \<noteq> []"
    and T: "0 < T" "T \<le> idle"
    and start: "buffer s = []"
  shows "run_writer W B (schedule T now arr idle) s =
           (case insert_batch W (map snd arr) (conn s) of
              (None, db) \<Rightarrow>
                (None, s\<lparr> buffer := [], last_flush := now + sum_list (map fst arr) + T, conn := db,
                           batches := batches s @ [map snd arr] \<rparr>)
            | (Some e, db) \<Rightarrow>
                (Some e, s\<lparr> buffer := map snd arr, conn := db, batches := batches s @ [map snd arr] \<rparr>))"
proof -
  let ?s1 = "s\<lparr> buffer := buffer s @ map snd arr \<rparr>"
  have b: "length (buffer s) + length arr < B" using len start by simp
  have ne: "buffer ?s1 \<noteq> []" using len by simp
  have "run_writer W B (schedule T now arr idle) s
          = run_writer W B (schedule T (now + sum_list (map fst arr)) [] idle) ?s1"
    by (simp add: schedule_burst[OF fast] run_writer_append run_timed_gots_below[OF b]
          del: schedule.simps)
  also note run_idle_flush[OF T ne]
  finally show ?thesis
    by (simp add: start split: prod.splits option.splits)
qed

lemma full_burst:
  assumes fast: "\<forall>a \<in> set arr. fst a < T"
    and len: "length arr = B" "0 < B"
    and idle: "idle < T"
    and start: "buffer s = []"
  shows "run_writer W B (schedule T now arr idle) s =
           (case insert_batch W (map snd arr) (conn s) of
              (None, db) \<Rightarrow>
                (None, s\<lparr> buffer := [], last_flush := now + sum_list (map fst arr), conn := db,
                           batches := batches s @ [map snd arr] \<rparr>)
            | (Some e, db) \<Rightarrow>
                (None, s\<lparr> buffer := map snd arr, conn := db, batches := batches s @ [map snd arr] \<rparr>))"
    and "schedule T now arr idle = timed_gots now arr"
proof -
  from idle have "idle div T = 0" by simp
  then have i: "schedule T (now + sum_list (map fst arr)) [] idle = []"
    by simp
  show sch: "schedule T now arr idle = timed_gots now arr"
    by (simp add: schedule_burst[OF fast] i del: schedule.simps)
  from len obtain arr' a where arr: "arr = arr' @ [a]"
    by (cases arr rule: rev_cases) auto
  obtain g e where a: "a = (g, e)" by (cases a)
  let ?s1 = "s\<lparr> buffer := buffer s @ map snd arr' \<rparr>"
  have b: "length (buffer s) + length arr' < B" using len start arr by simp
  have full: "B \<le> length (buffer ?s1) + 1" using len start arr by simp
  have "run_writer W B (timed_gots now arr) s
          = run_writer W B [(now + sum_list (map fst arr') + g, Got e)] ?s1"
    by (simp add: arr a timed_gots_append run_writer_append run_timed_gots_below[OF b])
  also have "\<dots> = (case insert_batch W (map snd arr) (conn s) of
              (None, db) \<Rightarrow>
                (None, s\<lparr> buffer := [], last_flush := now + sum_list (map fst arr), conn := db,
                           batches := batches s @ [map snd arr] \<rparr>)
            | (Some e, db) \<Rightarrow>
                (None, s\<lparr> buffer := map snd arr, conn := db, batches := batches s @ [map snd arr] \<rparr>))"
  proof -
    have bs: "buffer ?s1 @ [e] = map snd arr" "conn ?s1 = conn s" "batches ?s1 = batches s"
      by (simp_all add: arr a start)
    have t: "now + sum_list (map fst arr') + g = now + sum_list (map fst arr)"
      by (simp add: arr a)
    have st: "writer_step W B (now + sum_list (map fst arr') + g) (Got e) ?s1 =
        (case insert_batch W (map snd arr) (conn s) of
           (None, db) \<Rightarrow>
             (None, s\<lparr> buffer := [], last_flush := now + sum_list (map fst arr), conn := db,
                        batches := batches s @ [map snd arr] \<rparr>)
         | (Some e, db) \<Rightarrow>
             (None, s\<lparr> buffer := map snd arr, conn := db, batches := batches s @ [map snd arr] \<rparr>))"
      unfolding writer_step_got_full[OF full] bs
      by (simp add: t split: prod.splits option.splits)
    show ?thesis
    proof (cases "insert_batch W (map snd arr) (conn s)")
      case (Pair r db)
      then show ?thesis
        unfolding run_writer.simps st by (cases r) simp_all
    qed
  qed
  finally show "run_writer W B (schedule T now arr idle) s =
           (case insert_batch W (map snd arr) (conn s) of
              (None, db) \<Rightarrow>
                (None, s\<lparr> buffer := [], last_flush := now + sum_list (map fst arr), conn := db,
                           batches := batches s @ [map snd arr] \<rparr>)
            | (Some e, db) \<Rightarrow>
                (None, s\<lparr> buffer := map snd arr, conn := db, batches := batches s @ [map snd arr] \<rparr>))"
    by (simp only: sch)
qed

text \<open>
  Claim C3, as stated, fails: with \<open>BATCH_SIZE\<close> 500 and \<open>FLUSH_INTERVAL\<close> 2000 ms, two
  events that arrive 1500 ms apart keep every wait below the timeout. At time 3500 the buffer
  has held events for longer than the interval since the last flush (time 0) and nothing has
  been flushed.
\<close>

theorem trickle_counterexample:
  "run_writer keeping_writer BATCH_SIZE
       (schedule FLUSH_INTERVAL 0 [(1500, click ''s0''), (1500, click ''s1'')] 500) (writer_start [])
     = (None, \<lparr> buffer = [click ''s0'', click ''s1''], last_flush = 0, conn = [], batches = [] \<rparr>)
   \<and> last_flush (snd (run_writer keeping_writer BATCH_SIZE
         (schedule FLUSH_INTERVAL 0 [(1500, click ''s0''), (1500, click ''s1'')] 500) (writer_start [])))
         + FLUSH_INTERVAL \<le> 1500 + 1500 + 500
   \<and> batches (snd (run_writer keeping_writer BATCH_SIZE
         (schedule FLUSH_INTERVAL 0 [(1500, click ''s0''), (1500, click ''s1'')] 500) (writer_start [])))
       = []"
proof -
  have a: "run_writer keeping_writer BATCH_SIZE
       (schedule FLUSH_INTERVAL 0 [(1500, click ''s0''), (1500, click ''s1'')] 500) (writer_start [])
     = (None, \<lparr> buffer = [click ''s0'', click ''s1''], last_flush = 0, conn = [], batches = [] \<rparr>)"
    by code_simp
  show ?thesis unfolding a by (simp add: FLUSH_INTERVAL_def)
qed

text \<open>
  Claim C3, amended. The writer calls \<open>insert_batch\<close> exactly when an arrival brings the
  buffer to the threshold \<open>B\<close>, or when no event arrives during a wait of length \<open>T\<close> and the
  buffer is not empty; the wait starts anew at every arrival, not at the last flush. Each
  call hands over the entire buffer, and \<open>insert_batch\<close> passes all of it to one
  \<open>executemany\<close>. Fewer than \<open>B\<close> events in quick succession followed by an idle time of at
  least \<open>T\<close> give exactly one call, with these events; \<open>B\<close> events in quick succession give
  exactly one call with the \<open>B\<close> events and no timeout. The buffer is empty after a call
  that returned.
\<close>

theorem batched_writer_flushes:
  "(length (buffer s) + 1 < B \<longrightarrow>
      writer_step W B t (Got evt) s = (None, s\<lparr> buffer := buffer s @ [evt] \<rparr>))
   \<and> (B \<le> length (buffer s) + 1 \<longrightarrow>
        batches (snd (writer_step W B t (Got evt) s)) = batches s @ [buffer s @ [evt]]
      \<and> fst (writer_step W B t (Got evt) s) = None)
   \<and> (buffer s = [] \<longrightarrow> writer_step W B t TimedOut s = (None, s))
   \<and> (buffer s \<noteq> [] \<longrightarrow>
        batches (snd (writer_step W B t TimedOut s)) = batches s @ [buffer s])
   \<and> (\<forall>ps. rows \<noteq> [] \<and> all_params W rows = Inr ps \<longrightarrow>
        insert_batch W rows db = w_executemany W ps db \<and> length ps = length rows)
   \<and> ((\<forall>a \<in> set arr. fst a < T) \<and> length arr < B \<and> arr \<noteq> [] \<and> 0 < T \<and> T \<le> idle
        \<and> buffer s = [] \<longrightarrow>
        batches (snd (run_writer W B (schedule T now arr idle) s)) = batches s @ [map snd arr]
      \<and> (fst (insert_batch W (map snd arr) (conn s)) = None \<longrightarrow>
            fst (run_writer W B (schedule T now arr idle) s) = None
          \<and> buffer (snd (run_writer W B (schedule T now arr idle) s)) = []))
   \<and> ((\<forall>a \<in> set arr. fst a < T) \<and> length arr = B \<and> 0 < B \<and> idle < T \<and> buffer s = [] \<longrightarrow>
        schedule T now arr idle = timed_gots now arr
      \<and> batches (snd (run_writer W B (schedule T now arr idle) s)) = batches s @ [map snd arr]
      \<and> fst (run_writer W B (schedule T now arr idle) s) = None
      \<and> (fst (insert_batch W (map snd arr) (conn s)) = None \<longrightarrow>
            buffer (snd (run_writer W B (schedule T now arr idle) s)) = []))"
proof (intro conjI)
  show "length (buffer s) + 1 < B \<longrightarrow>
      writer_step W B t (Got evt) s = (None, s\<lparr> buffer := buffer s @ [evt] \<rparr>)"
    by (simp add: writer_step_got_below)
next
  show "B \<le> length (buffer s) + 1 \<longrightarrow>
        batches (snd (writer_step W B t (Got evt) s)) = batches s @ [buffer s @ [evt]]
      \<and> fst (writer_step W B t (Got evt) s) = None"
    by (auto simp: writer_step_got_full split: prod.splits option.splits)
next
  show "buffer s = [] \<longrightarrow> writer_step W B t TimedOut s = (None, s)"
    by (simp add: writer_step_timeout_empty)
next
  show "buffer s \<noteq> [] \<longrightarrow>
        batches (snd (writer_step W B t TimedOut s)) = batches s @ [buffer s]"
    by (auto simp: writer_step_timeout_flush split: prod.splits option.splits)
next
  have "\<And>ps. all_params W rows = Inr ps \<Longrightarrow> length ps = length rows"
    by (induction rows) (auto split: sum.splits)
  then show "\<forall>ps. rows \<noteq> [] \<and> all_params W rows = Inr ps \<longrightarrow>
        insert_batch W rows db = w_executemany W ps db \<and> length ps = length rows"
    by (auto simp: insert_batch_def)
next
  show "(\<forall>a \<in> set arr. fst a < T) \<and> length arr < B \<and> arr \<noteq> [] \<and> 0 < T \<and> T \<le> idle
        \<and> buffer s = [] \<longrightarrow>
        batches (snd (run_writer W B (schedule T now arr idle) s)) = batches s @ [map snd arr]
      \<and> (fst (insert_batch W (map snd arr) (conn s)) = None \<longrightarrow>
            fst (run_writer W B (schedule T now arr idle) s) = None
          \<and> buffer (snd (run_writer W B (schedule T now arr idle) s)) = [])"
  proof (intro impI, elim conjE)
    assume a: "\<forall>a \<in> set arr. fst a < T" "length arr < B" "arr \<noteq> []" "0 < T" "T \<le> idle"
      "buffer s = []"
    note r = burst_then_idle[OF a, of W now]
    show "batches (snd (run_writer W B (schedule T now arr idle) s)) = batches s @ [map snd arr]
      \<and> (fst (insert_batch W (map snd arr) (conn s)) = None \<longrightarrow>
            fst (run_writer W B (schedule T now arr idle) s) = None
          \<and> buffer (snd (run_writer W B (schedule T now arr idle) s)) = [])"
      unfolding r
      by (cases "insert_batch W (map snd arr) (conn s)") (auto split: option.splits)
  qed
next
  show "(\<forall>a \<in> set arr. fst a < T) \<and> length arr = B \<and> 0 < B \<and> idle < T \<and> buffer s = [] \<longrightarrow>
        schedule T now arr idle = timed_gots now arr
      \<and> batches (snd (run_writer W B (schedule T now arr idle) s)) = batches s @ [map snd arr]
      \<and> fst (run_writer W B (schedule T now arr idle) s) = None
      \<and> (fst (insert_batch W (map snd arr) (conn s)) = None \<longrightarrow>
            buffer (snd (run_writer W B (schedule T now arr idle) s)) = [])"
  proof (intro impI, elim conjE)
    assume a: "\<forall>a \<in> set arr. fst a < T" "length arr = B" "0 < B" "idle < T" "buffer s = []"
    note r = full_burst(1)[OF a, of W now]
    have 1: "schedule T now arr idle = timed_gots now arr" by (rule full_burst(2)[OF a])
    have 2: "batches (snd (run_writer W B (schedule T now arr idle) s)) = batches s @ [map snd arr]
      \<and> fst (run_writer W B (schedule T now arr idle) s) = None
      \<and> (fst (insert_batch W (map snd arr) (conn s)) = None \<longrightarrow>
            buffer (snd (run_writer W B (schedule T now arr idle) s)) = [])"
      unfolding r
      by (cases "insert_batch W (map snd arr) (conn s)") (auto split: option.splits)
    from 1 2 show "schedule T now arr idle = timed_gots now arr
      \<and> batches (snd (run_writer W B (schedule T now arr idle) s)) = batches s @ [map snd arr]
      \<and> fst (run_writer W B (schedule T now arr idle) s) = None
      \<and> (fst (insert_batch W (map snd arr) (conn s)) = None \<longrightarrow>
            buffer (snd (run_writer W B (schedule T now arr idle) s)) = [])"
      by (rule conjI)
  qed
qed

theorem batched_writer_flushes_witness:
  "(10::nat) < 2000 \<and> length [(10::nat, click ''s0''), (10, click ''s1'')] < 3
   \<and> (0::nat) < 2000 \<and> (2000::nat) \<le> 2500
   \<and> buffer (writer_start ([] :: event_row list list)) = []
   \<and> fst (insert_batch keeping_writer [click ''s0'', click ''s1''] []) = None
   \<and> batches (snd (run_writer keeping_writer 3
         (schedule 2000 0 [(10, click ''s0''), (10, click ''s1'')] 2500) (writer_start [])))
       = [[click ''s0'', click ''s1'']]
   \<and> fst (run_writer keeping_writer 3
         (schedule 2000 0 [(10, click ''s0''), (10, click ''s1'')] 2500) (writer_start [])) = None
   \<and> buffer (snd (run_writer keeping_writer 3
         (schedule 2000 0 [(10, click ''s0''), (10, click ''s1'')] 2500) (writer_start []))) = []"
proof -
  let ?arr = "[(10::nat, click ''s0''), (10, click ''s1'')]"
  let ?s = "writer_start ([] :: event_row list list)"
  have h1: "(10::nat) < 2000" by simp
  have h2: "length ?arr < 3" by simp
  have h3: "(0::nat) < 2000" by simp
  have h4: "(2000::nat) \<le> 2500" by simp
  have h5: "buffer ?s = []" by (simp add: writer_start_def)
  have h6: "fst (insert_batch keeping_writer [click ''s0'', click ''s1''] []) = None" by code_simp
  have h6': "fst (insert_batch keeping_writer (map snd ?arr) (conn ?s)) = None"
    using h6 by (simp add: writer_start_def)
  have P: "(\<forall>a \<in> set ?arr. fst a < 2000) \<and> length ?arr < 3 \<and> ?arr \<noteq> [] \<and> (0::nat) < 2000
        \<and> (2000::nat) \<le> 2500 \<and> buffer ?s = []"
    using h5 by simp
  note T = batched_writer_flushes[of ?s 3 keeping_writer _ _ _ _ ?arr 2000 2500 0]
  note L = T[THEN conjunct2, THEN conjunct2, THEN conjunct2, THEN conjunct2, THEN conjunct2,
             THEN conjunct1, THEN mp, OF P]
  from L have c1: "batches (snd (run_writer keeping_writer 3 (schedule 2000 0 ?arr 2500) ?s))
       = [[click ''s0'', click ''s1'']]"
    by (simp add: writer_start_def)
  from L[THEN conjunct2, THEN mp, OF h6']
  have c2: "fst (run_writer keeping_writer 3 (schedule 2000 0 ?arr 2500) ?s) = None"
    and c3: "buffer (snd (run_writer keeping_writer 3 (schedule 2000 0 ?arr 2500) ?s)) = []"
    by simp_all
  show ?thesis
    by (intro conjI) (rule h1 h2 h3 h4 h5 h6 c1 c2 c3)+
qed

section \<open>Claim C7: a flush that fails\<close>

lemma timeout_flush_failure:
  assumes "buffer s \<noteq> []" "fst (insert_batch W (buffer s) (conn s)) = Some e"
  shows "fst (writer_step W B t TimedOut s) = Some e"
    and "fst (run_writer W B ((t, TimedOut) # rest) s) = Some e"
    and "batches (snd (run_writer W B ((t, TimedOut) # rest) s)) = batches s @ [buffer s]"
  using assms
  by (auto simp: writer_step_timeout_flush split: prod.splits option.splits)

lemma size_flush_failure:
  assumes "B \<le> length (buffer s) + 1" "fst (insert_batch W (buffer s @ [evt]) (conn s)) = Some e"
  shows "fst (writer_step W B t (Got evt) s) = None"
    and "buffer (snd (writer_step W B t (Got evt) s)) = buffer s @ [evt]"
  using assms
  by (auto simp: writer_step_got_full split: prod.splits option.splits)

text \<open>
  Claim C7 against the code. One event arrives and the queue then stays empty; the store's
  \<open>executemany\<close> raises. The flush at the first timeout raises inside the
  \<open>except asyncio.TimeoutError\<close> handler, the exception leaves the loop and the task ends
  at time 2010: the second timeout is never handled and the buffered event is flushed by no
  later call. The same failure on the size path (threshold 1) is caught and keeps the
  buffer.
\<close>

theorem timeout_flush_failure_ends_task:
  "schedule FLUSH_INTERVAL 0 [(10, click ''s0'')] 4500
     = [(10, Got (click ''s0'')), (2010, TimedOut), (4010, TimedOut)]
   \<and> run_writer failing_writer BATCH_SIZE (schedule FLUSH_INTERVAL 0 [(10, click ''s0'')] 4500)
        (writer_start [])
     = (Some IOError,
        \<lparr> buffer = [click ''s0''], last_flush = 0, conn = [], batches = [[click ''s0'']] \<rparr>)
   \<and> writer_step failing_writer 1 10 (Got (click ''s0'')) (writer_start [])
     = (None, \<lparr> buffer = [click ''s0''], last_flush = 0, conn = [], batches = [[click ''s0'']] \<rparr>)"
proof -
  have a: "schedule FLUSH_INTERVAL 0 [(10, click ''s0'')] 4500
     = [(10, Got (click ''s0'')), (2010, TimedOut), (4010, TimedOut)]"
    by code_simp
  have b: "run_writer failing_writer BATCH_SIZE (schedule FLUSH_INTERVAL 0 [(10, click ''s0'')] 4500)
        (writer_start [])
     = (Some IOError,
        \<lparr> buffer = [click ''s0''], last_flush = 0, conn = [], batches = [[click ''s0'']] \<rparr>)"
    by code_simp
  have c: "writer_step failing_writer 1 10 (Got (click ''s0'')) (writer_start [])
     = (None, \<lparr> buffer = [click ''s0''], last_flush = 0, conn = [], batches = [[click ''s0'']] \<rparr>)"
    by code_simp
  show ?thesis by (intro conjI) (rule a b c)+
qed

section \<open>Claim C8: malformed messages and failing deliveries\<close>

lemma handle_message_no_fault: "fst (handle_message loads cb m out) = None"
  by (auto simp: handle_message_def split: option.splits prod.splits)

lemma emit_registered:
  "emit (Some f) jv lv out = (None, if truthy jv \<and> lv \<noteq> JNull then out @ [(jv, lv)] else out)"
  by (simp add: emit_def split: option.splits)

lemma handle_message_dropped:
  "delivery_of loads m = None \<Longrightarrow> handle_message loads cb m out = (None, out)"
  by (cases cb)
     (auto simp: handle_message_def delivery_of_def handle_payload_def loads_data_def
        payload_get_def emit_def data_truthy_def
        split: option.splits prod.splits mdata.splits sum.splits json.splits if_splits)

lemma handle_message_delivered:
  "delivery_of loads m = Some d \<Longrightarrow> handle_message loads (Some f) m out = (None, out @ [d])"
  by (auto simp: handle_message_def delivery_of_def handle_payload_def loads_data_def
        payload_get_def emit_registered data_truthy_def
        split: option.splits prod.splits mdata.splits sum.splits json.splits if_splits)

lemma handle_message_unregistered: "handle_message loads None m out = (None, out)"
  by (auto simp: handle_message_def handle_payload_def loads_data_def payload_get_def emit_def
        split: option.splits prod.splits mdata.splits sum.splits json.splits)

lemma listener_loop_deliveries:
  "listener_loop loads (Some f) (map (Pair True) ms) out
     = (None, out @ List.map_filter (delivery_of loads) ms)"
proof (induction ms arbitrary: out)
  case Nil
  then show ?case by (simp add: List.map_filter_simps)
next
  case (Cons m ms)
  show ?case
  proof (cases "delivery_of loads m")
    case None
    then show ?thesis
      by (simp add: handle_message_dropped Cons.IH List.map_filter_simps)
  next
    case (Some d)
    then show ?thesis
      by (simp add: handle_message_delivered Cons.IH List.map_filter_simps)
  qed
qed

lemma listener_loop_unregistered:
  "listener_loop loads None (map (Pair True) ms) out = (None, out)"
  by (induction ms) (simp_all add: handle_message_unregistered)

lemma listener_loop_no_fault: "fst (listener_loop loads cb rs out) = None"
proof (induction rs arbitrary: out)
  case Nil
  then show ?case by simp
next
  case (Cons r rs)
  obtain running m where r: "r = (running, m)" by (cases r)
  obtain out' where h: "handle_message loads cb m out = (None, out')"
    using handle_message_no_fault[of loads cb m out]
    by (cases "handle_message loads cb m out") auto
  show ?case by (simp add: r h Cons.IH)
qed

lemma delivery_of_unparseable:
  "m = Some msg \<Longrightarrow> mdata msg = DStr s \<Longrightarrow> loads s = Inl e \<Longrightarrow> delivery_of loads m = None"
  by (simp add: delivery_of_def)

lemma delivery_of_missing:
  "m = Some msg \<Longrightarrow> mdata msg = DStr s \<Longrightarrow> loads s = Inr (JObj kvs) \<Longrightarrow>
   map_of kvs ''job_id'' = None \<or> map_of kvs ''line'' = None \<Longrightarrow> delivery_of loads m = None"
  by (auto simp: delivery_of_def split: option.splits)

lemma listener_loop_two:
  "listener_loop loads (Some f) [(True, m1), (True, m2)] out
     = (None, out @ List.map_filter (delivery_of loads) [m1, m2])"
  using listener_loop_deliveries[of loads f "[m1, m2]" out] by simp

text \<open>
  Claim C8. Handling a message never lets an exception through, and neither does the loop.
  A message that delivers nothing (among them the ones whose data \<open>json.loads\<close> rejects and
  the ones whose payload lacks \<open>job_id\<close> or \<open>line\<close>) leaves the record of calls as it was.
  With a callback registered and the loop kept running, the calls made are exactly the
  deliveries of the messages, in order, whatever the callback raises: a message that delivers
  nothing does not keep the next one from being delivered, and neither does a call that
  raised.
\<close>

theorem listener_drops_malformed:
  "fst (handle_message loads cb m out) = None
   \<and> fst (listener_loop loads cb rs out) = None
   \<and> (delivery_of loads m = None \<longrightarrow> handle_message loads cb m out = (None, out))
   \<and> (\<forall>msg s e. m = Some msg \<and> mdata msg = DStr s \<and> loads s = Inl e \<longrightarrow>
          delivery_of loads m = None)
   \<and> (\<forall>msg s kvs. m = Some msg \<and> mdata msg = DStr s \<and> loads s = Inr (JObj kvs)
          \<and> (map_of kvs ''job_id'' = None \<or> map_of kvs ''line'' = None) \<longrightarrow>
          delivery_of loads m = None)
   \<and> (\<forall>d. delivery_of loads m = Some d \<longrightarrow>
          handle_message loads (Some f) m out = (None, out @ [d]))
   \<and> listener_loop loads (Some f) (map (Pair True) ms) out
        = (None, out @ List.map_filter (delivery_of loads) ms)
   \<and> (\<forall>d. delivery_of loads m1 = None \<and> delivery_of loads m2 = Some d \<longrightarrow>
          listener_loop loads (Some f) [(True, m1), (True, m2)] out = (None, out @ [d]))
   \<and> (\<forall>d1 d2 e. delivery_of loads m1 = Some d1 \<and> f (fst d1) (snd d1) = Some e
          \<and> delivery_of loads m2 = Some d2 \<longrightarrow>
          listener_loop loads (Some f) [(True, m1), (True, m2)] out = (None, out @ [d1, d2]))"
proof (intro conjI)
  show "fst (handle_message loads cb m out) = None" by (rule handle_message_no_fault)
next
  show "fst (listener_loop loads cb rs out) = None" by (rule listener_loop_no_fault)
next
  show "delivery_of loads m = None \<longrightarrow> handle_message loads cb m out = (None, out)"
    by (rule impI) (rule handle_message_dropped)
next
  show "\<forall>msg s e. m = Some msg \<and> mdata msg = DStr s \<and> loads s = Inl e \<longrightarrow>
          delivery_of loads m = None"
  proof (intro allI impI, elim conjE)
    fix msg s e assume "m = Some msg" "mdata msg = DStr s" "loads s = Inl e"
    then show "delivery_of loads m = None" by (rule delivery_of_unparseable)
  qed
next
  show "\<forall>msg s kvs. m = Some msg \<and> mdata msg = DStr s \<and> loads s = Inr (JObj kvs)
          \<and> (map_of kvs ''job_id'' = None \<or> map_of kvs ''line'' = None) \<longrightarrow>
          delivery_of loads m = None"
  proof (intro allI impI, elim conjE)
    fix msg s kvs assume "m = Some msg" "mdata msg = DStr s" "loads s = Inr (JObj kvs)"
      "map_of kvs ''job_id'' = None \<or> map_of kvs ''line'' = None"
    then show "delivery_of loads m = None" by (rule delivery_of_missing)
  qed
next
  show "\<forall>d. delivery_of loads m = Some d \<longrightarrow>
          handle_message loads (Some f) m out = (None, out @ [d])"
    by (intro allI impI) (rule handle_message_delivered)
next
  show "listener_loop loads (Some f) (map (Pair True) ms) out
        = (None, out @ List.map_filter (delivery_of loads) ms)"
    by (rule listener_loop_deliveries)
next
  show "\<forall>d. delivery_of loads m1 = None \<and> delivery_of loads m2 = Some d \<longrightarrow>
          listener_loop loads (Some f) [(True, m1), (True, m2)] out = (None, out @ [d])"
  proof (intro allI impI, elim conjE)
    fix d assume a: "delivery_of loads m1 = None" "delivery_of loads m2 = Some d"
    have "List.map_filter (delivery_of loads) [m1, m2] = [d]"
      by (simp only: List.map_filter_simps a option.case)
    then show "listener_loop loads (Some f) [(True, m1), (True, m2)] out = (None, out @ [d])"
      by (simp only: listener_loop_two)
  qed
next
  show "\<forall>d1 d2 e. delivery_of loads m1 = Some d1 \<and> f (fst d1) (snd d1) = Some e
          \<and> delivery_of loads m2 = Some d2 \<longrightarrow>
          listener_loop loads (Some f) [(True, m1), (True, m2)] out = (None, out @ [d1, d2])"
  proof (intro allI impI, elim conjE)
    fix d1 d2 e assume a: "delivery_of loads m1 = Some d1" "delivery_of loads m2 = Some d2"
    have "List.map_filter (delivery_of loads) [m1, m2] = [d1, d2]"
      by (simp only: List.map_filter_simps a option.case)
    then show "listener_loop loads (Some f) [(True, m1), (True, m2)] out = (None, out @ [d1, d2])"
      by (simp only: listener_loop_two)
  qed
qed

theorem listener_drops_malformed_witness:
  "delivery_of loads_messages (broadcast ''{\"job_id\": \"j1\"}'') = None
   \<and> delivery_of loads_messages (broadcast ''{\"job_id\": \"j1\", \"line\": \"hello\"}'')
       = Some (JStr ''j1'', JStr ''hello'')
   \<and> raising_cb (JStr ''j1'') (JStr ''hello'') = Some TypeError
   \<and> listener_loop loads_messages (Some raising_cb)
         [(True, broadcast ''{\"job_id\": \"j1\"}''),
          (True, broadcast ''{\"job_id\": \"j1\", \"line\": \"hello\"}'')] []
       = (None, [(JStr ''j1'', JStr ''hello'')])
   \<and> listener_loop loads_messages (Some raising_cb)
         [(True, broadcast ''not json''),
          (True, broadcast ''{\"job_id\": \"j1\", \"line\": \"hello\"}''),
          (True, broadcast ''{\"job_id\": \"j1\", \"line\": \"hello\"}'')] []
       = (None, [(JStr ''j1'', JStr ''hello''), (JStr ''j1'', JStr ''hello'')])"
proof -
  let ?m1 = "broadcast ''{\"job_id\": \"j1\"}''"
  let ?m2 = "broadcast ''{\"job_id\": \"j1\", \"line\": \"hello\"}''"
  have h1: "delivery_of loads_messages ?m1 = None" by code_simp
  have h2: "delivery_of loads_messages ?m2 = Some (JStr ''j1'', JStr ''hello'')" by code_simp
  have h3: "raising_cb (JStr ''j1'') (JStr ''hello'') = Some TypeError"
    by (simp add: raising_cb_def)
  note T = listener_drops_malformed[of loads_messages _ _ "[]" _ raising_cb _ ?m1 ?m2]
  note L = T[THEN conjunct2, THEN conjunct2, THEN conjunct2, THEN conjunct2, THEN conjunct2,
             THEN conjunct2, THEN conjunct2, THEN conjunct1, THEN spec, THEN mp,
             OF conjI[OF h1 h2]]
  have c1: "listener_loop loads_messages (Some raising_cb) [(True, ?m1), (True, ?m2)] []
       = (None, [(JStr ''j1'', JStr ''hello'')])"
    using L by simp
  have c2: "listener_loop loads_messages (Some raising_cb)
         [(True, broadcast ''not json''), (True, ?m2), (True, ?m2)] []
       = (None, [(JStr ''j1'', JStr ''hello''), (JStr ''j1'', JStr ''hello'')])"
    by code_simp
  show ?thesis
    by (intro conjI) (rule h1 h2 h3 c1 c2)+
qed

section \<open>Claim C10: what decides a delivery\<close>

lemma handle_message_object:
  assumes "mtype msg = Some ''message''" "mdata msg = DStr s" "s \<noteq> []"
    "loads s = Inr (JObj kvs)"
  shows "handle_message loads (Some f) (Some msg) out =
           (None,
            if truthy (case map_of kvs ''job_id'' of None \<Rightarrow> JNull | Some v \<Rightarrow> v)
               \<and> (case map_of kvs ''line'' of None \<Rightarrow> JNull | Some v \<Rightarrow> v) \<noteq> JNull
            then out @ [(case map_of kvs ''job_id'' of None \<Rightarrow> JNull | Some v \<Rightarrow> v,
                         case map_of kvs ''line'' of None \<Rightarrow> JNull | Some v \<Rightarrow> v)]
            else out)"
  using assms
  by (simp add: handle_message_def data_truthy_def handle_payload_def loads_data_def
        payload_get_def emit_registered split: option.splits)

text \<open>
  Claim C10. For a message of type \<open>message\<close> whose data parses to an object, a registered
  callback is called exactly when \<open>job_id\<close> is true and \<open>line\<close> is not \<open>None\<close>, an absent key
  reading as \<open>None\<close>. So an empty \<open>line\<close> is delivered when \<open>job_id\<close> is true, and a message
  whose \<open>job_id\<close> is the empty string, absent or otherwise false is dropped. With no callback
  registered no message delivers anything.
\<close>

theorem fanout_delivery_rule:
  "(mtype msg = Some ''message'' \<and> mdata msg = DStr s \<and> s \<noteq> [] \<and> loads s = Inr (JObj kvs) \<longrightarrow>
      handle_message loads (Some f) (Some msg) out =
        (None,
         if truthy (case map_of kvs ''job_id'' of None \<Rightarrow> JNull | Some v \<Rightarrow> v)
            \<and> (case map_of kvs ''line'' of None \<Rightarrow> JNull | Some v \<Rightarrow> v) \<noteq> JNull
         then out @ [(case map_of kvs ''job_id'' of None \<Rightarrow> JNull | Some v \<Rightarrow> v,
                      case map_of kvs ''line'' of None \<Rightarrow> JNull | Some v \<Rightarrow> v)]
         else out)
    \<and> (\<forall>jv. map_of kvs ''job_id'' = Some jv \<and> truthy jv \<and> map_of kvs ''line'' = Some (JStr []) \<longrightarrow>
          handle_message loads (Some f) (Some msg) out = (None, out @ [(jv, JStr [])]))
    \<and> (map_of kvs ''job_id'' = Some (JStr []) \<or> map_of kvs ''job_id'' = None
          \<or> (\<exists>jv. map_of kvs ''job_id'' = Some jv \<and> \<not> truthy jv) \<longrightarrow>
          handle_message loads (Some f) (Some msg) out = (None, out)))
   \<and> handle_message loads None m out = (None, out)
   \<and> listener_loop loads None (map (Pair True) ms) out = (None, out)"
proof (intro conjI)
  show "mtype msg = Some ''message'' \<and> mdata msg = DStr s \<and> s \<noteq> [] \<and> loads s = Inr (JObj kvs) \<longrightarrow>
      handle_message loads (Some f) (Some msg) out =
        (None,
         if truthy (case map_of kvs ''job_id'' of None \<Rightarrow> JNull | Some v \<Rightarrow> v)
            \<and> (case map_of kvs ''line'' of None \<Rightarrow> JNull | Some v \<Rightarrow> v) \<noteq> JNull
         then out @ [(case map_of kvs ''job_id'' of None \<Rightarrow> JNull | Some v \<Rightarrow> v,
                      case map_of kvs ''line'' of None \<Rightarrow> JNull | Some v \<Rightarrow> v)]
         else out)
    \<and> (\<forall>jv. map_of kvs ''job_id'' = Some jv \<and> truthy jv \<and> map_of kvs ''line'' = Some (JStr []) \<longrightarrow>
          handle_message loads (Some f) (Some msg) out = (None, out @ [(jv, JStr [])]))
    \<and> (map_of kvs ''job_id'' = Some (JStr []) \<or> map_of kvs ''job_id'' = None
          \<or> (\<exists>jv. map_of kvs ''job_id'' = Some jv \<and> \<not> truthy jv) \<longrightarrow>
          handle_message loads (Some f) (Some msg) out = (None, out))"
  proof (intro impI, elim conjE)
    assume a: "mtype msg = Some ''message''" "mdata msg = DStr s" "s \<noteq> []"
      "loads s = Inr (JObj kvs)"
    note r = handle_message_object[where loads = loads and f = f and out = out, OF a]
    have 1: "\<forall>jv. map_of kvs ''job_id'' = Some jv \<and> truthy jv \<and> map_of kvs ''line'' = Some (JStr []) \<longrightarrow>
          handle_message loads (Some f) (Some msg) out = (None, out @ [(jv, JStr [])])"
      unfolding r by simp
    have 2: "map_of kvs ''job_id'' = Some (JStr []) \<or> map_of kvs ''job_id'' = None
          \<or> (\<exists>jv. map_of kvs ''job_id'' = Some jv \<and> \<not> truthy jv) \<longrightarrow>
          handle_message loads (Some f) (Some msg) out = (None, out)"
      unfolding r by auto
    from r 1 2 show "handle_message loads (Some f) (Some msg) out =
        (None,
         if truthy (case map_of kvs ''job_id'' of None \<Rightarrow> JNull | Some v \<Rightarrow> v)
            \<and> (case map_of kvs ''line'' of None \<Rightarrow> JNull | Some v \<Rightarrow> v) \<noteq> JNull
         then out @ [(case map_of kvs ''job_id'' of None \<Rightarrow> JNull | Some v \<Rightarrow> v,
                      case map_of kvs ''line'' of None \<Rightarrow> JNull | Some v \<Rightarrow> v)]
         else out)
    \<and> (\<forall>jv. map_of kvs ''job_id'' = Some jv \<and> truthy jv \<and> map_of kvs ''line'' = Some (JStr []) \<longrightarrow>
          handle_message loads (Some f) (Some msg) out = (None, out @ [(jv, JStr [])]))
    \<and> (map_of kvs ''job_id'' = Some (JStr []) \<or> map_of kvs ''job_id'' = None
          \<or> (\<exists>jv. map_of kvs ''job_id'' = Some jv \<and> \<not> truthy jv) \<longrightarrow>
          handle_message loads (Some f) (Some msg) out = (None, out))"
      by (intro conjI)
  qed
next
  show "handle_message loads None m out = (None, out)" by (rule handle_message_unregistered)
next
  show "listener_loop loads None (map (Pair True) ms) out = (None, out)"
    by (rule listener_loop_unregistered)
qed

theorem fanout_delivery_rule_witness:
  "mtype \<lparr> mtype = Some ''message'', mdata = DStr ''{\"job_id\": \"j1\", \"line\": \"\"}'' \<rparr>
       = Some ''message''
   \<and> loads_messages ''{\"job_id\": \"j1\", \"line\": \"\"}''
       = Inr (JObj [(''job_id'', JStr ''j1''), (''line'', JStr [])])
   \<and> map_of [(''job_id'', JStr ''j1''), (''line'', JStr [])] ''job_id'' = Some (JStr ''j1'')
   \<and> truthy (JStr ''j1'')
   \<and> map_of [(''job_id'', JStr ''j1''), (''line'', JStr [])] ''line'' = Some (JStr [])
   \<and> handle_message loads_messages (Some raising_cb)
         (Some \<lparr> mtype = Some ''message'', mdata = DStr ''{\"job_id\": \"j1\", \"line\": \"\"}'' \<rparr>) []
       = (None, [(JStr ''j1'', JStr [])])
   \<and> handle_message loads_messages (Some raising_cb)
         (broadcast ''{\"job_id\": \"\", \"line\": \"hello\"}'') [] = (None, [])
   \<and> handle_message loads_messages (Some raising_cb)
         (broadcast ''{\"line\": \"hello\"}'') [] = (None, [])"
proof -
  let ?s = "''{\"job_id\": \"j1\", \"line\": \"\"}''"
  let ?msg = "\<lparr> mtype = Some ''message'', mdata = DStr ?s \<rparr>"
  let ?kvs = "[(''job_id'', JStr ''j1''), (''line'', JStr [])]"
  have h1: "mtype ?msg = Some ''message''" by simp
  have h2: "mdata ?msg = DStr ?s" by simp
  have h3: "?s \<noteq> []" by simp
  have h4: "loads_messages ?s = Inr (JObj ?kvs)" by code_simp
  have h5: "map_of ?kvs ''job_id'' = Some (JStr ''j1'')" by simp
  have h6: "truthy (JStr ''j1'')" by simp
  have h7: "map_of ?kvs ''line'' = Some (JStr [])" by simp
  note T = fanout_delivery_rule[of ?msg ?s loads_messages ?kvs raising_cb "[]"]
  note L = T[THEN conjunct1, THEN mp, OF conjI[OF h1 conjI[OF h2 conjI[OF h3 h4]]]]
  note M = L[THEN conjunct2, THEN conjunct1, THEN spec, THEN mp, OF conjI[OF h5 conjI[OF h6 h7]]]
  have c1: "handle_message loads_messages (Some raising_cb) (Some ?msg) []
       = (None, [(JStr ''j1'', JStr [])])"
    using M by simp
  have c2: "handle_message loads_messages (Some raising_cb)
         (broadcast ''{\"job_id\": \"\", \"line\": \"hello\"}'') [] = (None, [])"
    by code_simp
  have c3: "handle_message loads_messages (Some raising_cb)
         (broadcast ''{\"line\": \"hello\"}'') [] = (None, [])"
    by code_simp
  show ?thesis
    by (intro conjI) (rule h1 h4 h5 h6 h7 c1 c2 c3)+
qed

end
